theory Spec2Isabelle
  imports Main "HOL-Library.AList"
begin

section \<open>Data model\<close>

text \<open>
  The development follows \<^verbatim>\<open>src/tracking/sensors.py\<close> (class \<^verbatim>\<open>Sensor\<close>) and the replay
  loop of \<^verbatim>\<open>src/tracking/director.py\<close> (\<^verbatim>\<open>Director.run_history\<close>).
  \<^verbatim>\<open>src/project/sensors.py\<close> is the same class with \<^verbatim>\<open>location_map\<close> spelled \<^verbatim>\<open>zm\<close>,
  \<^verbatim>\<open>location_map_unknown\<close> spelled \<^verbatim>\<open>zm_unknown\<close> and \<^verbatim>\<open>locations\<close> spelled \<^verbatim>\<open>zones\<close>.

  The configuration modules (\<^verbatim>\<open>config.locations\<close>, \<^verbatim>\<open>config.parameters\<close>) and the helper
  module are not part of the sources. The list of locations is therefore a parameter: one
  list of connector ids per location, in the configured order. Timestamps are what
  \<^verbatim>\<open>hlp.convert_event_data_timestamp\<close> returns as unix time; they are taken as integers.
\<close>

datatype error = IndexError | TypeError | AttributeError | KeyError

text \<open>
  An event as the code reads it: \<^verbatim>\<open>os.path.basename(event['targetName'])\<close>, the unix time
  of \<^verbatim>\<open>event['data']['networkStatus']['updateTime']\<close>, and the fields \<^verbatim>\<open>id\<close> and
  \<^verbatim>\<open>signalStrength\<close> of \<^verbatim>\<open>event['data']['networkStatus']['cloudConnectors'][0]\<close>.
\<close>

record event =
  target_name :: string
  update_time :: int
  ccon_id :: string
  signal_strength :: int

text \<open>
  The attributes of a \<^verbatim>\<open>Sensor\<close> object. The Python lists \<^verbatim>\<open>unixtime\<close>, \<^verbatim>\<open>max_rssi\<close> and the
  rows of \<^verbatim>\<open>rssi\<close> hold \<^verbatim>\<open>None\<close> or a number, hence \<open>int option\<close>. The dictionary
  \<^verbatim>\<open>ccons\<close> is kept in insertion order as an association list; \<open>AList.update\<close> overwrites
  an existing key in place and appends a new one, as a Python dict does.
  \<^verbatim>\<open>location_map_unknown\<close> is an attribute that exists only once it has been assigned:
  \<open>None\<close> stands for the missing attribute. The attributes \<^verbatim>\<open>device\<close> and \<^verbatim>\<open>values\<close> are
  never read or written by the modelled methods and are left out.
\<close>

record sensor =
  sensor_id :: string
  unixtime :: "int option list"
  rssi :: "int option list list"
  ccons :: "(string \<times> nat) list"
  ccon_ids :: "string list"
  max_rssi :: "int option list"
  n_events :: nat
  last_event :: int
  buffering :: bool
  event_buffer :: "event list"
  location_map :: "nat list"
  location_map_unknown :: "nat option"

text \<open>
  A method that raises returns \<open>Inl (e, s)\<close>: the exception \<open>e\<close> and the object \<open>s\<close> as
  the method had mutated it when the exception left it.
\<close>

type_synonym 'a result = "(error \<times> sensor) + 'a"

section \<open>The sensor: construction\<close>

text \<open>\<^verbatim>\<open>self.ccons[ccon] = len(self.ccons); self.rssi.append([None])\<close>\<close>

definition add_ccon :: "sensor \<Rightarrow> string \<Rightarrow> sensor" where
  "add_ccon s ccon =
     s\<lparr>ccons := AList.update ccon (length (ccons s)) (ccons s), rssi := rssi s @ [[None]]\<rparr>"

text \<open>\<^verbatim>\<open>self.location_map.append(i); self.location_map_unknown = i + 1\<close>\<close>

definition map_ccon :: "nat \<Rightarrow> sensor \<Rightarrow> sensor" where
  "map_ccon i s = s\<lparr>location_map := location_map s @ [i], location_map_unknown := Some (i + 1)\<rparr>"

definition initialise_ccons_list :: "string list list \<Rightarrow> sensor \<Rightarrow> sensor" where
  "initialise_ccons_list locations s0 =
     (let s1 = foldl (\<lambda>s loc. foldl add_ccon s loc) s0 locations;
          s2 = s1\<lparr>unixtime := unixtime s1 @ [None]\<rparr>;
          s3 = s2\<lparr>max_rssi := max_rssi s2 @ [None]\<rparr>;
          s4 = s3\<lparr>n_events := n_events s3 + 1\<rparr>;
          s5 = s4\<lparr>location_map := []\<rparr>
      in foldl (\<lambda>s i. foldl (\<lambda>s' j. map_ccon i s') s [0..<length (locations ! i)])
           s5 [0..<length locations])"

text \<open>\<^verbatim>\<open>Sensor.__init__\<close>\<close>

definition Sensor_init :: "string list list \<Rightarrow> string \<Rightarrow> sensor" where
  "Sensor_init locations sid =
     initialise_ccons_list locations
       \<lparr>sensor_id = sid, unixtime = [], rssi = [], ccons = [], ccon_ids = [], max_rssi = [],
        n_events = 0, last_event = - 1, buffering = False, event_buffer = [],
        location_map = [], location_map_unknown = None\<rparr>"

section \<open>The sensor: buffering an event\<close>

text \<open>
  The loop of \<^verbatim>\<open>new_event_data\<close> over \<^verbatim>\<open>range(len(self.event_buffer))\<close>: it carries the
  buffer and the flag \<^verbatim>\<open>exists\<close>, and does not stop at the first match.
\<close>

definition replace_in_buffer :: "event \<Rightarrow> event list \<times> bool \<Rightarrow> nat \<Rightarrow> event list \<times> bool" where
  "replace_in_buffer ev st i =
     (case st of (buf, ex) \<Rightarrow>
        if ccon_id (buf ! i) = ccon_id ev then (buf[i := ev], True) else (buf, ex))"

definition new_event_data :: "sensor \<Rightarrow> event \<Rightarrow> sensor" where
  "new_event_data s ev =
     (case foldl (replace_in_buffer ev) (event_buffer s, False) [0..<length (event_buffer s)] of
        (buf, ex) \<Rightarrow>
          s\<lparr>event_buffer := (if \<not> ex then buf @ [ev] else buf),
            last_event := update_time ev,
            buffering := True\<rparr>)"

section \<open>The sensor: committing a tick\<close>

text \<open>
  One round of the loop \<^verbatim>\<open>for event in self.event_buffer\<close> of \<^verbatim>\<open>update_event_data\<close>:
  registration of a connector that is not a key of \<^verbatim>\<open>ccons\<close>, then the append to the row
  \<^verbatim>\<open>self.rssi[self.ccons[ccon['id']]]\<close>.
\<close>

definition register_ccon :: "event \<Rightarrow> sensor \<Rightarrow> sensor result" where
  "register_ccon ev s =
     (if map_of (ccons s) (ccon_id ev) = None then
        (let s1 = s\<lparr>rssi := rssi s @ [replicate (n_events s - 1) (Some 0)]\<rparr>;
             s2 = s1\<lparr>ccons := AList.update (ccon_id ev) (length (ccons s1)) (ccons s1)\<rparr>;
             s3 = s2\<lparr>ccon_ids := ccon_ids s2 @ [ccon_id ev]\<rparr>
         in (case location_map_unknown s3 of
               None \<Rightarrow> Inl (AttributeError, s3)
             | Some u \<Rightarrow> Inr (s3\<lparr>location_map := location_map s3 @ [u]\<rparr>)))
      else Inr s)"

definition append_rssi :: "event \<Rightarrow> sensor \<Rightarrow> sensor result" where
  "append_rssi ev s =
     (case map_of (ccons s) (ccon_id ev) of
        None \<Rightarrow> Inl (KeyError, s)
      | Some i \<Rightarrow>
          if i < length (rssi s)
          then Inr (s\<lparr>rssi := (rssi s)[i := rssi s ! i @ [Some (signal_strength ev)]]\<rparr>)
          else Inl (IndexError, s))"

definition commit_event :: "event \<Rightarrow> sensor \<Rightarrow> sensor result" where
  "commit_event ev s =
     (case register_ccon ev s of Inl x \<Rightarrow> Inl x | Inr s1 \<Rightarrow> append_rssi ev s1)"

fun commit_events :: "event list \<Rightarrow> sensor \<Rightarrow> sensor result" where
  "commit_events [] s = Inr s"
| "commit_events (ev # evs) s =
     (case commit_event ev s of Inl x \<Rightarrow> Inl x | Inr s1 \<Rightarrow> commit_events evs s1)"

text \<open>
  \<^verbatim>\<open>for i in range(len(self.rssi)): if len(self.rssi[i]) < self.n_events: self.rssi[i].append(0)\<close>
\<close>

definition fill_row :: "nat \<Rightarrow> int option list \<Rightarrow> int option list" where
  "fill_row n row = (if length row < n then row @ [Some 0] else row)"

definition fill_rows :: "sensor \<Rightarrow> sensor" where
  "fill_rows s = s\<lparr>rssi := map (fill_row (n_events s)) (rssi s)\<rparr>"

text \<open>
  The search for the maximum: \<^verbatim>\<open>argmax = -1; valmax = -1\<close>, then for every row index
  \<^verbatim>\<open>if self.rssi[i][-1] > valmax\<close>. The last element of an empty row does not exist
  (IndexError) and \<^verbatim>\<open>None > valmax\<close> is a TypeError.
\<close>

fun max_loop :: "int option list list \<Rightarrow> nat \<Rightarrow> int \<Rightarrow> int \<Rightarrow> error + int" where
  "max_loop [] i argmax valmax = Inr argmax"
| "max_loop (row # rows) i argmax valmax =
     (if row = [] then Inl IndexError
      else case last row of
             None \<Rightarrow> Inl TypeError
           | Some v \<Rightarrow>
               if v > valmax then max_loop rows (i + 1) (int i) v
               else max_loop rows (i + 1) argmax valmax)"

definition get_max_rssi :: "int option list list \<Rightarrow> error + int" where
  "get_max_rssi rows = max_loop rows 0 (- 1) (- 1)"

text \<open>
  The first statement of \<^verbatim>\<open>update_event_data\<close> reads the update time of
  \<^verbatim>\<open>self.event_buffer[-1]\<close>, which raises IndexError on an empty buffer.
\<close>

definition last_update_time :: "sensor \<Rightarrow> error + int" where
  "last_update_time s =
     (if event_buffer s = [] then Inl IndexError
      else Inr (update_time (last (event_buffer s))))"

text \<open>\<^verbatim>\<open>update_event_data\<close>. The value \<open>ux\<close> of the first statement is not used afterwards.\<close>

definition update_event_data :: "sensor \<Rightarrow> int \<Rightarrow> sensor result" where
  "update_event_data s ux_calltime =
     (case last_update_time s of
        Inl e \<Rightarrow> Inl (e, s)
      | Inr ux \<Rightarrow>
          (let s1 = s\<lparr>unixtime := unixtime s @ [Some ux_calltime]\<rparr>;
               s2 = s1\<lparr>n_events := n_events s1 + 1\<rparr>
           in (case commit_events (event_buffer s2) s2 of
                 Inl x \<Rightarrow> Inl x
               | Inr s3 \<Rightarrow>
                   (let s4 = fill_rows s3
                    in (case get_max_rssi (rssi s4) of
                          Inl e \<Rightarrow> Inl (e, s4)
                        | Inr argmax \<Rightarrow>
                            Inr (s4\<lparr>max_rssi := max_rssi s4 @ [Some argmax],
                                    buffering := False,
                                    event_buffer := []\<rparr>))))))"

text \<open>\<^verbatim>\<open>update_empty\<close>\<close>

definition update_empty :: "sensor \<Rightarrow> int \<Rightarrow> sensor" where
  "update_empty s ux_calltime =
     (let s1 = s\<lparr>n_events := n_events s + 1\<rparr>;
          s2 = s1\<lparr>unixtime := unixtime s1 @ [Some ux_calltime]\<rparr>;
          s3 = s2\<lparr>max_rssi := max_rssi s2 @ [None]\<rparr>
      in fill_rows s3)"

section \<open>Sequences of calls on one sensor\<close>

text \<open>
  The three methods that change a sensor, as calls with their arguments, and the sensor
  after a sequence of calls. An exception is not caught by any caller in the sources, so
  the first call that raises ends the sequence.
\<close>

datatype call = Ingest event | Flush int | FlushEmpty int

fun run_call :: "sensor \<Rightarrow> call \<Rightarrow> sensor result" where
  "run_call s (Ingest ev) = Inr (new_event_data s ev)"
| "run_call s (Flush t) = update_event_data s t"
| "run_call s (FlushEmpty t) = Inr (update_empty s t)"

fun run_calls :: "sensor \<Rightarrow> call list \<Rightarrow> sensor result" where
  "run_calls s [] = Inr s"
| "run_calls s (c # cs) =
     (case run_call s c of Inl x \<Rightarrow> Inl x | Inr s1 \<Rightarrow> run_calls s1 cs)"

text \<open>The calls that commit a tick.\<close>

fun is_commit :: "call \<Rightarrow> bool" where
  "is_commit (Ingest ev) = False"
| "is_commit (Flush t) = True"
| "is_commit (FlushEmpty t) = True"

section \<open>The director: replaying the event history\<close>

text \<open>
  The constants \<^verbatim>\<open>prm.streamtick\<close> and \<^verbatim>\<open>prm.buffertime\<close> of the configuration and the
  command-line argument \<^verbatim>\<open>self.args['timeout']\<close>.
\<close>

record parameters =
  streamtick :: int
  buffertime :: int
  timeout :: int

text \<open>
  \<^verbatim>\<open>Director.__new_event_data\<close>: every sensor whose id is the event's source receives it.
\<close>

definition Director_new_event_data :: "sensor list \<Rightarrow> event \<Rightarrow> sensor list" where
  "Director_new_event_data sensors event_data =
     map (\<lambda>sensor. if sensor_id sensor = target_name event_data
                    then new_event_data sensor event_data else sensor) sensors"

text \<open>
  The inner loop of \<^verbatim>\<open>run_history\<close>:
  \<^verbatim>\<open>while i < n_events and event_history_unixtime[i] < unix_now\<close>.
\<close>

function catch_up :: "event list \<Rightarrow> int \<Rightarrow> nat \<Rightarrow> sensor list \<Rightarrow> nat \<times> sensor list" where
  "catch_up event_history unix_now i sensors =
     (if i < length event_history \<and> update_time (event_history ! i) < unix_now
      then catch_up event_history unix_now (i + 1)
             (Director_new_event_data sensors (event_history ! i))
      else (i, sensors))"
  by pat_completeness auto
termination
  by (relation "measure (\<lambda>(event_history, unix_now, i, sensors). length event_history - i)") auto

declare catch_up.simps [simp del]

text \<open>
  The body of \<^verbatim>\<open>for sensor in self.sensors\<close>: the commit of a buffered tick, else the
  commit of an empty tick after the timeout, else nothing.
\<close>

definition check_sensor :: "parameters \<Rightarrow> int \<Rightarrow> sensor \<Rightarrow> sensor result" where
  "check_sensor prm unix_now sensor =
     (if buffering sensor \<and> length (event_buffer sensor) > 0
         \<and> unix_now - last_event sensor > buffertime prm
      then update_event_data sensor unix_now
      else if unix_now - last_event sensor > timeout prm
      then Inr (update_empty sensor unix_now)
      else Inr sensor)"

text \<open>An exception of one sensor ends the loop over the sensors and leaves the director.\<close>

fun check_sensors :: "parameters \<Rightarrow> int \<Rightarrow> sensor list \<Rightarrow> error + sensor list" where
  "check_sensors prm unix_now [] = Inr []"
| "check_sensors prm unix_now (sensor # sensors) =
     (case check_sensor prm unix_now sensor of
        Inl (e, _) \<Rightarrow> Inl e
      | Inr sensor' \<Rightarrow>
          (case check_sensors prm unix_now sensors of
             Inl e \<Rightarrow> Inl e
           | Inr sensors' \<Rightarrow> Inr (sensor' # sensors')))"

text \<open>
  The outer loop \<^verbatim>\<open>while unix_now <= unix_end\<close>. With a step that is not positive the
  Python loop does not end; the result \<open>None\<close> stands for that.
\<close>

partial_function (option) simulate ::
  "parameters \<Rightarrow> event list \<Rightarrow> int \<Rightarrow> int \<Rightarrow> nat \<Rightarrow> sensor list \<Rightarrow> (error + sensor list) option"
where
  "simulate prm event_history unix_end unix_now i sensors =
     (if unix_now \<le> unix_end then
        (case catch_up event_history unix_now i sensors of
           (i', sensors1) \<Rightarrow>
             (case check_sensors prm unix_now sensors1 of
                Inl e \<Rightarrow> Some (Inl e)
              | Inr sensors2 \<Rightarrow>
                  simulate prm event_history unix_end (unix_now + streamtick prm) i' sensors2))
      else Some (Inr sensors))"

declare simulate.simps [code]

text \<open>
  \<^verbatim>\<open>run_history\<close> on the fetched history, which \<^verbatim>\<open>__fetch_event_history\<close> has sorted in time.
  The plot at the end is left out.
\<close>

definition run_history ::
  "parameters \<Rightarrow> event list \<Rightarrow> sensor list \<Rightarrow> (error + sensor list) option" where
  "run_history prm event_history sensors =
     (if length event_history < 1 then Some (Inr sensors)
      else simulate prm event_history (update_time (last event_history))
             (update_time (hd event_history)) 0 sensors)"

text \<open>\<^verbatim>\<open>Director.__spawn_devices\<close>, on the ids of the labelled devices.\<close>

definition spawn_devices :: "string list list \<Rightarrow> string list \<Rightarrow> sensor list" where
  "spawn_devices locations sensor_ids = map (Sensor_init locations) sensor_ids"

section \<open>Invariants\<close>

text \<open>
  The dictionary \<^verbatim>\<open>ccons\<close> numbers the rows: its keys are distinct and its values are the
  row indices in order.
\<close>

definition dict_ok :: "sensor \<Rightarrow> bool" where
  "dict_ok s \<longleftrightarrow> distinct (map fst (ccons s)) \<and> map snd (ccons s) = [0..<length (rssi s)]"

text \<open>
  The sensor between two calls: the event counter is at least 1, every row has as many
  entries as the counter says, only the first entry of a row may be \<^verbatim>\<open>None\<close>, and the
  buffer holds one event per connector.
\<close>

definition rows_ok :: "sensor \<Rightarrow> bool" where
  "rows_ok s \<longleftrightarrow>
     1 \<le> n_events s \<and> dict_ok s \<and>
     (\<forall>row\<in>set (rssi s). length row = n_events s \<and> None \<notin> set (tl row)) \<and>
     distinct (map ccon_id (event_buffer s))"

text \<open>
  The sensor inside the loop over the buffered events \<open>evs\<close> that are still to come: the
  counter is already incremented, a row is one entry short until its event has been handled.
\<close>

definition mid_ok :: "event list \<Rightarrow> sensor \<Rightarrow> bool" where
  "mid_ok evs s \<longleftrightarrow>
     2 \<le> n_events s \<and> dict_ok s \<and>
     (\<forall>row\<in>set (rssi s). (length row = n_events s - 1 \<or> length row = n_events s)
        \<and> None \<notin> set (tl row)) \<and>
     distinct (map ccon_id evs) \<and>
     (\<forall>ev\<in>set evs. \<forall>i. map_of (ccons s) (ccon_id ev) = Some i \<longrightarrow>
        length (rssi s ! i) = n_events s - 1)"

text \<open>The row of a buffered event once the event has been handled.\<close>

definition row_after :: "event \<Rightarrow> sensor \<Rightarrow> int option list" where
  "row_after ev s =
     (case map_of (ccons s) (ccon_id ev) of
        None \<Rightarrow> replicate (n_events s - 1) (Some 0)
      | Some j \<Rightarrow> rssi s ! j) @ [Some (signal_strength ev)]"

text \<open>The attributes as \<^verbatim>\<open>__init__\<close> sets them before \<^verbatim>\<open>__initialise_ccons_list\<close> runs.\<close>

definition blank :: "string \<Rightarrow> sensor" where
  "blank sid = \<lparr>sensor_id = sid, unixtime = [], rssi = [], ccons = [], ccon_ids = [], max_rssi = [],
        n_events = 0, last_event = - 1, buffering = False, event_buffer = [],
        location_map = [], location_map_unknown = None\<rparr>"

text \<open>An observation for the device \<^verbatim>\<open>dev\<close>, for examples.\<close>

abbreviation obs :: "string \<Rightarrow> int \<Rightarrow> int \<Rightarrow> event" where
  "obs c a t \<equiv> \<lparr>target_name = ''dev'', update_time = t, ccon_id = c, signal_strength = a\<rparr>"

section \<open>The director: the live stream\<close>

text \<open>
  \<^verbatim>\<open>Director.run_stream\<close> and \<^verbatim>\<open>Director.listen\<close>. The main thread repeats
  \<^verbatim>\<open>now = time.time()\<close>, then under \<^verbatim>\<open>self.lock\<close> the same loop over the sensors as the replay,
  then \<^verbatim>\<open>time.sleep(prm.streamtick)\<close>; the listener thread calls \<^verbatim>\<open>__new_event_data\<close> under
  the same lock for every event that arrives. The lock makes the two bodies exclude each
  other, so a run is a sequence of steps of two kinds: an event arrives, or the main loop
  makes one round with the clock reading \<open>now\<close>. The loop never returns; \<open>run_stream\<close> gives
  the sensors after a finite sequence of steps. The plot is left out.
\<close>

datatype stream_step = Arrival event | Round int

fun run_stream :: "parameters \<Rightarrow> stream_step list \<Rightarrow> sensor list \<Rightarrow> error + sensor list" where
  "run_stream prm [] sensors = Inr sensors"
| "run_stream prm (Arrival event_data # steps) sensors =
     run_stream prm steps (Director_new_event_data sensors event_data)"
| "run_stream prm (Round now # steps) sensors =
     (case check_sensors prm now sensors of
        Inl e \<Rightarrow> Inl e
      | Inr sensors' \<Rightarrow> run_stream prm steps sensors')"

text \<open>The clock readings of the rounds, in order.\<close>

fun clock_readings :: "stream_step list \<Rightarrow> int list" where
  "clock_readings [] = []"
| "clock_readings (Arrival event_data # steps) = clock_readings steps"
| "clock_readings (Round now # steps) = now # clock_readings steps"

section \<open>The replay in the words of the specification\<close>

text \<open>
  The scheduler of the specification, written over the three operations of a tracker:
  ingest is \<open>new_event_data\<close>, flush is \<open>update_event_data\<close> and flushEmpty is
  \<open>update_empty\<close>. Nothing below refers to the director's code.

  The observations that are due at the cursor \<open>now\<close>: those not yet dispatched (from
  position \<open>i\<close> of the history on) whose timestamp is strictly less than \<open>now\<close>.
\<close>

definition due :: "event list \<Rightarrow> int \<Rightarrow> nat \<Rightarrow> event list" where
  "due event_history now i = filter (\<lambda>e. update_time e < now) (drop i event_history)"

text \<open>
  Device routing: an observation goes to the tracker whose device identifier is the
  observation's declared target. So a tracker is handed, in order, exactly those of the
  observations whose target it is; an observation that is no tracker's is dropped.
\<close>

definition deliver :: "event list \<Rightarrow> sensor \<Rightarrow> sensor" where
  "deliver observations tracker =
     foldl new_event_data tracker
       (filter (\<lambda>ob. target_name ob = sensor_id tracker) observations)"

text \<open>
  The rules of a tick for one tracker: (1) if the tracker is buffering, its buffer is not
  empty and \<open>now - last_event_time\<close> exceeds the settle window, flush at \<open>now\<close>; (2) else
  if \<open>now - last_event_time\<close> exceeds the timeout window, flushEmpty at \<open>now\<close>; (3)
  otherwise no action.
\<close>

definition evaluate :: "parameters \<Rightarrow> int \<Rightarrow> sensor \<Rightarrow> sensor result" where
  "evaluate prm now tracker =
     (if buffering tracker \<and> event_buffer tracker \<noteq> []
         \<and> buffertime prm < now - last_event tracker
      then update_event_data tracker now
      else if timeout prm < now - last_event tracker
      then Inr (update_empty tracker now)
      else Inr tracker)"

text \<open>
  The rules for every tracker: the trackers after their ticks, or the exception of the
  first tracker whose flush raises.
\<close>

definition evaluate_all :: "parameters \<Rightarrow> int \<Rightarrow> sensor list \<Rightarrow> error + sensor list" where
  "evaluate_all prm now trackers =
     (case find (\<lambda>tracker. isl (evaluate prm now tracker)) trackers of
        Some tracker \<Rightarrow> Inl (fst (projl (evaluate prm now tracker)))
      | None \<Rightarrow> Inr (map (\<lambda>tracker. projr (evaluate prm now tracker)) trackers))"

text \<open>
  One step of the replay at the cursor \<open>now\<close>: every tracker is handed the due
  observations that are its own, and only then are the rules evaluated for every tracker.
  The due observations count as dispatched afterwards.
\<close>

definition replay_step ::
  "parameters \<Rightarrow> event list \<Rightarrow> int \<Rightarrow> nat \<times> sensor list \<Rightarrow> error + nat \<times> sensor list" where
  "replay_step prm event_history now st =
     (case st of (i, trackers) \<Rightarrow>
        (case evaluate_all prm now (map (deliver (due event_history now i)) trackers) of
           Inl e \<Rightarrow> Inl e
         | Inr trackers' \<Rightarrow> Inr (i + length (due event_history now i), trackers')))"

text \<open>The cursor values: from \<open>first\<close> in steps of \<open>step\<close>, as long as they do not exceed \<open>final\<close>.\<close>

definition cursors :: "int \<Rightarrow> int \<Rightarrow> int \<Rightarrow> int list" where
  "cursors first step final =
     map (\<lambda>k. first + int k * step) [0..<nat ((final - first) div step + 1)]"

text \<open>The replay over a list of cursor values.\<close>

fun replay :: "parameters \<Rightarrow> event list \<Rightarrow> int list \<Rightarrow> nat \<times> sensor list \<Rightarrow> error + sensor list" where
  "replay prm event_history [] st = Inr (snd st)"
| "replay prm event_history (now # nows) st =
     (case replay_step prm event_history now st of
        Inl e \<Rightarrow> Inl e
      | Inr st' \<Rightarrow> replay prm event_history nows st')"

section \<open>The timestamps of a sensor\<close>

text \<open>
  The committed timestamps of a sensor at the time \<open>now\<close>: one entry per tick, the first
  the \<^verbatim>\<open>None\<close> of the construction, the others strictly increasing and below \<open>now\<close>.
\<close>

definition times_ok :: "int \<Rightarrow> sensor \<Rightarrow> bool" where
  "times_ok now s \<longleftrightarrow>
     length (unixtime s) = n_events s \<and>
     (\<exists>ts. unixtime s = None # map Some ts \<and> sorted_wrt (<) ts \<and> (\<forall>t\<in>set ts. t < now))"

section \<open>Evaluation of the definitions\<close>

lemmas sensor_defs = Sensor_init_def initialise_ccons_list_def add_ccon_def map_ccon_def
  new_event_data_def replace_in_buffer_def last_update_time_def update_event_data_def
  commit_event_def
  register_ccon_def append_rssi_def fill_rows_def fill_row_def get_max_rssi_def
  update_empty_def

section \<open>The search for the maximum\<close>

text \<open>
  What \<open>max_loop\<close> returns when it returns: every row has a last element that is a number,
  and the result is the first position of the greatest of these numbers if one of them
  exceeds the starting value, and the starting index otherwise.
\<close>

lemma max_loop_spec:
  "max_loop rows i am vm = Inr a \<Longrightarrow>
     \<exists>vs. [] \<notin> set rows \<and> map last rows = map Some vs \<and>
       (if \<exists>v\<in>set vs. vm < v
        then \<exists>k<length vs. a = int (i + k) \<and> vs ! k = Max (set vs) \<and> vm < Max (set vs)
               \<and> (\<forall>j<k. vs ! j < Max (set vs))
        else a = am)"
proof (induction rows arbitrary: i am vm)
  case Nil
  then show ?case by simp
next
  case (Cons row rows)
  from Cons.prems obtain v where ne: "row \<noteq> []" and lv: "last row = Some v"
    by (auto split: if_splits option.splits)
  show ?case
  proof (cases "vm < v")
    case True
    with Cons.prems ne lv have rec: "max_loop rows (i + 1) (int i) v = Inr a" by simp
    from Cons.IH [OF rec] obtain vs where
      vs: "[] \<notin> set rows" "map last rows = map Some vs"
      and sel: "if \<exists>w\<in>set vs. v < w
        then \<exists>k<length vs. a = int (i + 1 + k) \<and> vs ! k = Max (set vs) \<and> v < Max (set vs)
               \<and> (\<forall>j<k. vs ! j < Max (set vs))
        else a = int i" by blast
    show ?thesis
    proof (cases "\<exists>w\<in>set vs. v < w")
      case True
      with sel obtain k where k: "k < length vs" "a = int (i + 1 + k)" "vs ! k = Max (set vs)"
        "v < Max (set vs)" "\<forall>j<k. vs ! j < Max (set vs)" by auto
      have ne': "set vs \<noteq> {}" using k(1) by auto
      have mx: "Max (set (v # vs)) = Max (set vs)"
        using k(4) ne' by (simp add: max_def)
      have "\<forall>j<Suc k. (v # vs) ! j < Max (set vs)"
        using k(4,5) by (auto simp: nth_Cons split: nat.splits)
      with k mx \<open>vm < v\<close> have "Suc k < length (v # vs) \<and> a = int (i + Suc k)
          \<and> (v # vs) ! Suc k = Max (set (v # vs)) \<and> vm < Max (set (v # vs))
          \<and> (\<forall>j<Suc k. (v # vs) ! j < Max (set (v # vs)))" by simp
      then have "\<exists>k<length (v # vs). a = int (i + k)
          \<and> (v # vs) ! k = Max (set (v # vs)) \<and> vm < Max (set (v # vs))
          \<and> (\<forall>j<k. (v # vs) ! j < Max (set (v # vs)))" by blast
      moreover have "\<exists>w\<in>set (v # vs). vm < w" using \<open>vm < v\<close> by simp
      ultimately show ?thesis using ne lv vs
        by (intro exI [of _ "v # vs"]) simp
    next
      case False
      with sel have a: "a = int i" by simp
      from False have le: "\<forall>w\<in>set vs. w \<le> v" by auto
      have mx: "Max (set (v # vs)) = v"
      proof (cases "set vs = {}")
        case True then show ?thesis by simp
      next
        case False
        with le have "Max (set vs) \<le> v" by simp
        then have "max v (Max (set vs)) = v" by (rule max_absorb1)
        with False show ?thesis by simp
      qed
      have "0 < length (v # vs) \<and> a = int (i + 0) \<and> (v # vs) ! 0 = Max (set (v # vs))
          \<and> vm < Max (set (v # vs)) \<and> (\<forall>j<0. (v # vs) ! j < Max (set (v # vs)))"
        using a mx \<open>vm < v\<close> by simp
      then have "\<exists>k<length (v # vs). a = int (i + k)
          \<and> (v # vs) ! k = Max (set (v # vs)) \<and> vm < Max (set (v # vs))
          \<and> (\<forall>j<k. (v # vs) ! j < Max (set (v # vs)))" by blast
      moreover have "\<exists>w\<in>set (v # vs). vm < w" using \<open>vm < v\<close> by simp
      ultimately show ?thesis using ne lv vs
        by (intro exI [of _ "v # vs"]) simp
    qed
  next
    case False
    with Cons.prems ne lv have rec: "max_loop rows (i + 1) am vm = Inr a" by simp
    from Cons.IH [OF rec] obtain vs where
      vs: "[] \<notin> set rows" "map last rows = map Some vs"
      and sel: "if \<exists>w\<in>set vs. vm < w
        then \<exists>k<length vs. a = int (i + 1 + k) \<and> vs ! k = Max (set vs) \<and> vm < Max (set vs)
               \<and> (\<forall>j<k. vs ! j < Max (set vs))
        else a = am" by blast
    show ?thesis
    proof (cases "\<exists>w\<in>set vs. vm < w")
      case True
      with sel obtain k where k: "k < length vs" "a = int (i + 1 + k)" "vs ! k = Max (set vs)"
        "vm < Max (set vs)" "\<forall>j<k. vs ! j < Max (set vs)" by auto
      have ne': "set vs \<noteq> {}" using k(1) by auto
      have vlt: "v < Max (set vs)" using False k(4) by simp
      have mx: "Max (set (v # vs)) = Max (set vs)"
        using vlt ne' by (simp add: max_def)
      have "\<forall>j<Suc k. (v # vs) ! j < Max (set vs)"
        using vlt k(5) by (auto simp: nth_Cons split: nat.splits)
      with k mx have "Suc k < length (v # vs) \<and> a = int (i + Suc k)
          \<and> (v # vs) ! Suc k = Max (set (v # vs)) \<and> vm < Max (set (v # vs))
          \<and> (\<forall>j<Suc k. (v # vs) ! j < Max (set (v # vs)))" by simp
      then have "\<exists>k<length (v # vs). a = int (i + k)
          \<and> (v # vs) ! k = Max (set (v # vs)) \<and> vm < Max (set (v # vs))
          \<and> (\<forall>j<k. (v # vs) ! j < Max (set (v # vs)))" by blast
      moreover have "\<exists>w\<in>set (v # vs). vm < w" using True by auto
      ultimately show ?thesis using ne lv vs
        by (intro exI [of _ "v # vs"]) simp
    next
      case F2: False
      with sel have a: "a = am" by simp
      have "\<not> (\<exists>w\<in>set (v # vs). vm < w)" using F2 False by auto
      then show ?thesis using ne lv vs a
        by (intro exI [of _ "v # vs"]) simp
    qed
  qed
qed


text \<open>The loop over the buffered events touches the rows, the dictionary and the location map only.\<close>

lemma commit_event_fields:
  "commit_event ev s = Inr s1 \<Longrightarrow>
     max_rssi s1 = max_rssi s \<and> unixtime s1 = unixtime s \<and> n_events s1 = n_events s
     \<and> event_buffer s1 = event_buffer s \<and> buffering s1 = buffering s
     \<and> last_event s1 = last_event s \<and> sensor_id s1 = sensor_id s
     \<and> location_map_unknown s1 = location_map_unknown s"
  by (auto simp: commit_event_def register_ccon_def append_rssi_def Let_def
      split: if_splits sum.splits option.splits)

lemma commit_events_fields:
  "commit_events evs s = Inr s1 \<Longrightarrow>
     max_rssi s1 = max_rssi s \<and> unixtime s1 = unixtime s \<and> n_events s1 = n_events s
     \<and> event_buffer s1 = event_buffer s \<and> buffering s1 = buffering s
     \<and> last_event s1 = last_event s \<and> sensor_id s1 = sensor_id s
     \<and> location_map_unknown s1 = location_map_unknown s"
proof (induction evs arbitrary: s)
  case Nil
  then show ?case by simp
next
  case (Cons ev evs)
  from Cons.prems obtain s2 where a: "commit_event ev s = Inr s2" and b: "commit_events evs s2 = Inr s1"
    by (auto split: sum.splits)
  from commit_event_fields [OF a] Cons.IH [OF b] show ?case by simp
qed

lemma update_event_data_max:
  assumes "update_event_data s t = Inr s'"
  shows "\<exists>a. max_rssi s' = max_rssi s @ [Some a] \<and> get_max_rssi (rssi s') = Inr a"
  using assms
  by (auto simp: update_event_data_def last_update_time_def Let_def fill_rows_def
      split: if_splits sum.splits dest!: commit_events_fields)

section \<open>Scenario A\<close>

text \<open>
  Claim C1, as amended. With the locations \<open>[[ConnA, ConnB]]\<close>, an event of ConnA with signal
  strength \<open>a\<close> and an event of ConnB with signal strength \<open>b\<close> buffered one after the
  other, \<^verbatim>\<open>update_event_data\<close> returns and commits one tick: the call time is appended to
  \<^verbatim>\<open>unixtime\<close>, \<open>a\<close> to the row of ConnA and \<open>b\<close> to the row of ConnB. The index appended to
  \<^verbatim>\<open>max_rssi\<close> is that of ConnA (row 0, location 0) when \<open>a\<close> is at least 0 and not less
  than \<open>b\<close>; it is \<open>-1\<close>, the index of no row, when neither value exceeds the starting
  value \<open>-1\<close> of the search, as for \<open>a = -50\<close> and \<open>b = -60\<close>.
\<close>

theorem scenario_A_commit:
  "update_event_data
     (new_event_data
        (new_event_data (Sensor_init [[''ConnA'', ''ConnB'']] sid)
           \<lparr>target_name = tn, update_time = ta, ccon_id = ''ConnA'', signal_strength = a\<rparr>)
        \<lparr>target_name = tn', update_time = tb, ccon_id = ''ConnB'', signal_strength = b\<rparr>) t
   = Inr \<lparr>sensor_id = sid,
          unixtime = [None, Some t],
          rssi = [[None, Some a], [None, Some b]],
          ccons = [(''ConnA'', 0), (''ConnB'', 1)],
          ccon_ids = [],
          max_rssi = [None, Some (if - 1 < a then (if a < b then 1 else 0)
                                   else if - 1 < b then 1 else - 1)],
          n_events = 2,
          last_event = tb,
          buffering = False,
          event_buffer = [],
          location_map = [0, 0],
          location_map_unknown = Some 1\<rparr>"
  by (simp add: sensor_defs upt_rec)

text \<open>
  Claim C1 as stated fails: with the signal strengths \<open>-50\<close> and \<open>-60\<close> the index recorded
  for the tick is \<open>-1\<close>, not the index 0 of ConnA.
\<close>

theorem scenario_A_negative_rssi_counterexample:
  "update_event_data
     (new_event_data
        (new_event_data (Sensor_init [[''ConnA'', ''ConnB'']] ''dev'')
           \<lparr>target_name = ''dev'', update_time = 0, ccon_id = ''ConnA'',
            signal_strength = - 50\<rparr>)
        \<lparr>target_name = ''dev'', update_time = 1, ccon_id = ''ConnB'',
         signal_strength = - 60\<rparr>) 2
   = Inr \<lparr>sensor_id = ''dev'',
          unixtime = [None, Some 2],
          rssi = [[None, Some (- 50)], [None, Some (- 60)]],
          ccons = [(''ConnA'', 0), (''ConnB'', 1)],
          ccon_ids = [],
          max_rssi = [None, Some (- 1)],
          n_events = 2,
          last_event = 1,
          buffering = False,
          event_buffer = [],
          location_map = [0, 0],
          location_map_unknown = Some 1\<rparr>"
  by (simp add: sensor_defs upt_rec)

section \<open>Ties\<close>

text \<open>
  Claim C2, as amended. Whenever \<^verbatim>\<open>update_event_data\<close> returns, every row ends in a number
  (the values \<open>vs\<close> just appended) and one index \<open>a\<close> is appended to \<^verbatim>\<open>max_rssi\<close>. If some
  value just appended exceeds \<open>-1\<close>, then \<open>a\<close> is the first row that holds the greatest
  value: every earlier row holds a strictly smaller one, so among rows that share the
  greatest value the earliest registered is selected. If no value exceeds \<open>-1\<close>, then \<open>a\<close>
  is \<open>-1\<close> and no row is selected.
\<close>

theorem argmax_least_index_of_maximum:
  assumes "update_event_data s t = Inr s'"
  shows "\<exists>vs a. [] \<notin> set (rssi s') \<and> map last (rssi s') = map Some vs
           \<and> max_rssi s' = max_rssi s @ [Some a]
           \<and> (if \<exists>v\<in>set vs. - 1 < v
                then 0 \<le> a \<and> nat a < length vs \<and> vs ! nat a = Max (set vs)
                       \<and> (\<forall>j<nat a. vs ! j < Max (set vs))
                else a = - 1)"
proof -
  from update_event_data_max [OF assms] obtain a where
    a: "max_rssi s' = max_rssi s @ [Some a]" "max_loop (rssi s') 0 (- 1) (- 1) = Inr a"
    by (auto simp: get_max_rssi_def)
  from max_loop_spec [OF a(2)] obtain vs where
    vs: "[] \<notin> set (rssi s')" "map last (rssi s') = map Some vs"
    and sel: "if \<exists>v\<in>set vs. - 1 < v
        then \<exists>k<length vs. a = int (0 + k) \<and> vs ! k = Max (set vs) \<and> - 1 < Max (set vs)
               \<and> (\<forall>j<k. vs ! j < Max (set vs))
        else a = - 1" by blast
  have "if \<exists>v\<in>set vs. - 1 < v
        then 0 \<le> a \<and> nat a < length vs \<and> vs ! nat a = Max (set vs)
               \<and> (\<forall>j<nat a. vs ! j < Max (set vs))
        else a = - 1"
    using sel by (auto split: if_splits)
  with vs a(1) show ?thesis by blast
qed


theorem argmax_least_index_of_maximum_witness:
  "update_event_data
     (new_event_data
        (new_event_data (Sensor_init [[''ConnA'', ''ConnB'']] ''dev'')
           \<lparr>target_name = ''dev'', update_time = 0, ccon_id = ''ConnA'',
            signal_strength = 50\<rparr>)
        \<lparr>target_name = ''dev'', update_time = 1, ccon_id = ''ConnB'',
         signal_strength = 50\<rparr>) 2
   = Inr \<lparr>sensor_id = ''dev'', unixtime = [None, Some 2],
          rssi = [[None, Some 50], [None, Some 50]],
          ccons = [(''ConnA'', 0), (''ConnB'', 1)], ccon_ids = [],
          max_rssi = [None, Some 0], n_events = 2, last_event = 1,
          buffering = False, event_buffer = [], location_map = [0, 0],
          location_map_unknown = Some 1\<rparr>
   \<and> (\<exists>vs a. map last [[None, Some 50], [None, Some (50::int)]] = map Some vs
          \<and> [None, Some 0] = [None] @ [Some a]
          \<and> (if \<exists>v\<in>set vs. - 1 < v
               then 0 \<le> a \<and> nat a < length vs \<and> vs ! nat a = Max (set vs)
                      \<and> (\<forall>j<nat a. vs ! j < Max (set vs))
               else a = - 1))"
proof -
  have h: "update_event_data
     (new_event_data
        (new_event_data (Sensor_init [[''ConnA'', ''ConnB'']] ''dev'')
           \<lparr>target_name = ''dev'', update_time = 0, ccon_id = ''ConnA'',
            signal_strength = 50\<rparr>)
        \<lparr>target_name = ''dev'', update_time = 1, ccon_id = ''ConnB'',
         signal_strength = 50\<rparr>) 2
   = Inr \<lparr>sensor_id = ''dev'', unixtime = [None, Some 2],
          rssi = [[None, Some 50], [None, Some 50]],
          ccons = [(''ConnA'', 0), (''ConnB'', 1)], ccon_ids = [],
          max_rssi = [None, Some 0], n_events = 2, last_event = 1,
          buffering = False, event_buffer = [], location_map = [0, 0],
          location_map_unknown = Some 1\<rparr>"
    by (simp add: sensor_defs upt_rec)
  have m: "max_rssi (new_event_data
        (new_event_data (Sensor_init [[''ConnA'', ''ConnB'']] ''dev'')
           \<lparr>target_name = ''dev'', update_time = 0, ccon_id = ''ConnA'',
            signal_strength = 50\<rparr>)
        \<lparr>target_name = ''dev'', update_time = 1, ccon_id = ''ConnB'',
         signal_strength = 50\<rparr>) = [None]"
    by (simp add: sensor_defs upt_rec)
  from argmax_least_index_of_maximum [OF h] m have
    "\<exists>vs a. map last [[None, Some 50], [None, Some (50::int)]] = map Some vs
          \<and> [None, Some 0] = [None] @ [Some a]
          \<and> (if \<exists>v\<in>set vs. - 1 < v
               then 0 \<le> a \<and> nat a < length vs \<and> vs ! nat a = Max (set vs)
                      \<and> (\<forall>j<nat a. vs ! j < Max (set vs))
               else a = - 1)"
    by simp
  with h show ?thesis by (rule conjI)
qed

text \<open>
  Claim C2 as stated fails: ConnA and ConnB share the greatest value \<open>-50\<close>, and the index
  recorded is \<open>-1\<close>, not the index 0 of the earliest registered of the two.
\<close>

theorem tie_negative_rssi_counterexample:
  "update_event_data
     (new_event_data
        (new_event_data (Sensor_init [[''ConnA'', ''ConnB'']] ''dev'')
           \<lparr>target_name = ''dev'', update_time = 0, ccon_id = ''ConnA'',
            signal_strength = - 50\<rparr>)
        \<lparr>target_name = ''dev'', update_time = 1, ccon_id = ''ConnB'',
         signal_strength = - 50\<rparr>) 2
   = Inr \<lparr>sensor_id = ''dev'',
          unixtime = [None, Some 2],
          rssi = [[None, Some (- 50)], [None, Some (- 50)]],
          ccons = [(''ConnA'', 0), (''ConnB'', 1)],
          ccon_ids = [],
          max_rssi = [None, Some (- 1)],
          n_events = 2,
          last_event = 1,
          buffering = False,
          event_buffer = [],
          location_map = [0, 0],
          location_map_unknown = Some 1\<rparr>"
  by (simp add: sensor_defs upt_rec)

section \<open>A commit with an empty buffer\<close>

text \<open>
  Claim C3. \<^verbatim>\<open>update_event_data\<close> called with an empty buffer fails fast: it raises IndexError
  at its first statement, and the sensor is as it was before the call. No tick is committed
  and the search for the maximum is not reached.
\<close>

theorem update_event_data_empty_buffer:
  "event_buffer s = [] \<Longrightarrow> update_event_data s t = Inl (IndexError, s)"
  by (simp add: update_event_data_def last_update_time_def)

theorem update_event_data_empty_buffer_witness:
  "event_buffer (Sensor_init [[''ConnA'', ''ConnB'']] ''dev'') = []
   \<and> update_event_data (Sensor_init [[''ConnA'', ''ConnB'']] ''dev'') 2
       = Inl (IndexError, Sensor_init [[''ConnA'', ''ConnB'']] ''dev'')"
proof -
  have h: "event_buffer (Sensor_init [[''ConnA'', ''ConnB'']] ''dev'') = []"
    by (simp add: sensor_defs upt_rec)
  from h update_event_data_empty_buffer [OF h] show ?thesis by (rule conjI)
qed

section \<open>The buffer\<close>

lemma replace_loop_prefix:
  "n \<le> length buf \<Longrightarrow>
   foldl (replace_in_buffer ev) (buf, ex) [0..<n] =
     (map (\<lambda>e. if ccon_id e = ccon_id ev then ev else e) (take n buf) @ drop n buf,
      ex \<or> (\<exists>e\<in>set (take n buf). ccon_id e = ccon_id ev))"
proof (induction n)
  case 0
  then show ?case by simp
next
  case (Suc n)
  then have n: "n < length buf" by simp
  let ?g = "\<lambda>e. if ccon_id e = ccon_id ev then ev else e"
  have nth: "(map ?g (take n buf) @ drop n buf) ! n = buf ! n"
    using n by (simp add: nth_append)
  have upd: "(map ?g (take n buf) @ drop n buf)[n := v] = map ?g (take n buf) @ v # drop (Suc n) buf" for v
    using n by (simp add: list_update_append Cons_nth_drop_Suc [symmetric])
  have tk: "take (Suc n) buf = take n buf @ [buf ! n]"
    using n by (simp add: take_Suc_conv_app_nth)
  have dr: "drop n buf = buf ! n # drop (Suc n) buf"
    using n by (simp add: Cons_nth_drop_Suc)
  show ?case
  proof (cases "ccon_id (buf ! n) = ccon_id ev")
    case True
    then show ?thesis using Suc n nth upd tk
      by (simp add: replace_in_buffer_def)
  next
    case False
    then show ?thesis using Suc n nth tk dr
      by (auto simp add: replace_in_buffer_def)
  qed
qed

lemma replace_loop:
  "foldl (replace_in_buffer ev) (buf, ex) [0..<length buf] =
     (map (\<lambda>e. if ccon_id e = ccon_id ev then ev else e) buf,
      ex \<or> (\<exists>e\<in>set buf. ccon_id e = ccon_id ev))"
  using replace_loop_prefix [of "length buf" buf ev ex] by simp

lemma event_buffer_new_event_data:
  "event_buffer (new_event_data s ev) =
     (if \<exists>e\<in>set (event_buffer s). ccon_id e = ccon_id ev
      then map (\<lambda>e. if ccon_id e = ccon_id ev then ev else e) (event_buffer s)
      else event_buffer s @ [ev])"
proof -
  have "map (\<lambda>e. if ccon_id e = ccon_id ev then ev else e) (event_buffer s) = event_buffer s"
    if "\<not> (\<exists>e\<in>set (event_buffer s). ccon_id e = ccon_id ev)"
    using that by (simp add: map_idI)
  then show ?thesis
    by (auto simp: new_event_data_def replace_loop)
qed

lemma new_event_data_fields:
  "buffering (new_event_data s ev) = True"
  "last_event (new_event_data s ev) = update_time ev"
  "rssi (new_event_data s ev) = rssi s"
  "ccons (new_event_data s ev) = ccons s"
  "n_events (new_event_data s ev) = n_events s"
  "unixtime (new_event_data s ev) = unixtime s"
  "max_rssi (new_event_data s ev) = max_rssi s"
  "sensor_id (new_event_data s ev) = sensor_id s"
  "location_map_unknown (new_event_data s ev) = location_map_unknown s"
  by (simp_all add: new_event_data_def split: prod.splits)

lemma ids_new_event_data:
  "map ccon_id (event_buffer (new_event_data s ev)) =
     (if ccon_id ev \<in> set (map ccon_id (event_buffer s))
      then map ccon_id (event_buffer s) else map ccon_id (event_buffer s) @ [ccon_id ev])"
proof -
  have "map (ccon_id \<circ> (\<lambda>e. if ccon_id e = ccon_id ev then ev else e)) (event_buffer s)
        = map ccon_id (event_buffer s)"
    by (rule map_cong) auto
  moreover have "(\<exists>e\<in>set (event_buffer s). ccon_id e = ccon_id ev)
      \<longleftrightarrow> ccon_id ev \<in> set (map ccon_id (event_buffer s))"
    by (simp add: image_iff) metis
  ultimately show ?thesis
    by (simp add: event_buffer_new_event_data del: set_map)
qed

lemma distinct_new_event_data:
  "distinct (map ccon_id (event_buffer s)) \<Longrightarrow>
   distinct (map ccon_id (event_buffer (new_event_data s ev)))"
  by (simp add: ids_new_event_data)

lemma filter_replace_distinct:
  "distinct (map ccon_id buf) \<Longrightarrow> \<exists>e\<in>set buf. ccon_id e = ccon_id ev \<Longrightarrow>
   filter (\<lambda>e. ccon_id e = c) (map (\<lambda>e. if ccon_id e = ccon_id ev then ev else e) buf) =
     (if ccon_id ev = c then [ev] else filter (\<lambda>e. ccon_id e = c) buf)"
proof (induction buf)
  case Nil
  then show ?case by simp
next
  case (Cons x buf)
  show ?case
  proof (cases "ccon_id x = ccon_id ev")
    case True
    have no: "\<forall>e\<in>set buf. ccon_id e \<noteq> ccon_id ev"
    proof
      fix e assume "e \<in> set buf"
      then have "ccon_id e \<in> ccon_id ` set buf" by (rule imageI)
      moreover from Cons.prems(1) have "ccon_id x \<notin> ccon_id ` set buf" by simp
      ultimately show "ccon_id e \<noteq> ccon_id ev" using True by metis
    qed
    then have same: "map (\<lambda>e. if ccon_id e = ccon_id ev then ev else e) buf = buf"
      by (simp add: map_idI)
    from no have "ccon_id ev = c \<Longrightarrow> filter (\<lambda>e. ccon_id e = c) buf = []"
      by (auto simp: filter_empty_conv)
    with True same show ?thesis by auto
  next
    case False
    with Cons.prems have "\<exists>e\<in>set buf. ccon_id e = ccon_id ev" by auto
    with Cons.IH Cons.prems False show ?thesis by auto
  qed
qed

lemma filter_new_event_data:
  assumes "distinct (map ccon_id (event_buffer s))"
  shows "filter (\<lambda>e. ccon_id e = c) (event_buffer (new_event_data s ev)) =
     (if ccon_id ev = c then [ev] else filter (\<lambda>e. ccon_id e = c) (event_buffer s))"
proof (cases "\<exists>e\<in>set (event_buffer s). ccon_id e = ccon_id ev")
  case True
  with filter_replace_distinct [OF assms True] show ?thesis
    by (simp add: event_buffer_new_event_data)
next
  case False
  then have "ccon_id ev = c \<Longrightarrow> filter (\<lambda>e. ccon_id e = c) (event_buffer s) = []"
    by (auto simp: filter_empty_conv)
  with False show ?thesis
    by (auto simp: event_buffer_new_event_data)
qed

lemma ingest_all_buffer:
  "distinct (map ccon_id (event_buffer s)) \<Longrightarrow>
   distinct (map ccon_id (event_buffer (foldl new_event_data s evs))) \<and>
   filter (\<lambda>e. ccon_id e = c) (event_buffer (foldl new_event_data s evs)) =
     (if c \<in> ccon_id ` set evs then [last (filter (\<lambda>e. ccon_id e = c) evs)]
      else filter (\<lambda>e. ccon_id e = c) (event_buffer s))"
proof (induction evs arbitrary: s)
  case Nil
  then show ?case by simp
next
  case (Cons ev evs)
  have d: "distinct (map ccon_id (event_buffer (new_event_data s ev)))"
    using Cons.prems by (rule distinct_new_event_data)
  note IH = Cons.IH [OF d]
  have f: "filter (\<lambda>e. ccon_id e = c) (event_buffer (new_event_data s ev)) =
     (if ccon_id ev = c then [ev] else filter (\<lambda>e. ccon_id e = c) (event_buffer s))"
    using Cons.prems by (rule filter_new_event_data)
  have "c \<notin> ccon_id ` set evs \<Longrightarrow> filter (\<lambda>e. ccon_id e = c) evs = []"
    by (auto simp: filter_empty_conv)
  moreover have "c \<in> ccon_id ` set evs \<Longrightarrow> filter (\<lambda>e. ccon_id e = c) evs \<noteq> []"
    by (auto simp: filter_empty_conv)
  ultimately show ?case using IH f by auto
qed

text \<open>
  Claim C7. Starting from an empty buffer, after any sequence \<open>evs\<close> of calls of
  \<^verbatim>\<open>new_event_data\<close> the buffer holds at most one event per connector id, and the events
  buffered for a connector \<open>c\<close> are exactly: the last event of \<open>evs\<close> for \<open>c\<close> if there is
  one, and none otherwise (so two calls for the same connector leave one entry, the later).
\<close>

theorem ingest_last_write_wins:
  assumes "event_buffer s = []"
  shows "distinct (map ccon_id (event_buffer (foldl new_event_data s evs))) \<and>
     filter (\<lambda>e. ccon_id e = c) (event_buffer (foldl new_event_data s evs)) =
       (if c \<in> ccon_id ` set evs then [last (filter (\<lambda>e. ccon_id e = c) evs)] else [])"
  using ingest_all_buffer [of s evs c] assms by simp


theorem ingest_last_write_wins_witness:
  "event_buffer (Sensor_init [[''ConnA'', ''ConnB'']] ''dev'') = []
   \<and> (distinct (map ccon_id (event_buffer (foldl new_event_data
          (Sensor_init [[''ConnA'', ''ConnB'']] ''dev'')
          [obs ''ConnA'' 50 0, obs ''ConnB'' 40 1, obs ''ConnA'' 30 2])))
      \<and> filter (\<lambda>e. ccon_id e = ''ConnA'') (event_buffer (foldl new_event_data
          (Sensor_init [[''ConnA'', ''ConnB'']] ''dev'')
          [obs ''ConnA'' 50 0, obs ''ConnB'' 40 1, obs ''ConnA'' 30 2]))
        = (if ''ConnA'' \<in> ccon_id ` set [obs ''ConnA'' 50 0, obs ''ConnB'' 40 1, obs ''ConnA'' 30 2]
           then [last (filter (\<lambda>e. ccon_id e = ''ConnA'')
                   [obs ''ConnA'' 50 0, obs ''ConnB'' 40 1, obs ''ConnA'' 30 2])]
           else []))"
proof -
  have h: "event_buffer (Sensor_init [[''ConnA'', ''ConnB'']] ''dev'') = []"
    by (simp add: sensor_defs upt_rec)
  from h ingest_last_write_wins [OF h] show ?thesis by (rule conjI)
qed

lemma buffering_new: "buffering (new_event_data s ev) \<longleftrightarrow> event_buffer (new_event_data s ev) \<noteq> []"
  by (auto simp: new_event_data_fields event_buffer_new_event_data)

lemma fill_rows_fields:
  "buffering (fill_rows s) = buffering s" "event_buffer (fill_rows s) = event_buffer s"
  "n_events (fill_rows s) = n_events s" "ccons (fill_rows s) = ccons s"
  "unixtime (fill_rows s) = unixtime s" "max_rssi (fill_rows s) = max_rssi s"
  "sensor_id (fill_rows s) = sensor_id s"
  "location_map_unknown (fill_rows s) = location_map_unknown s"
  "last_event (fill_rows s) = last_event s"
  by (simp_all add: fill_rows_def)

lemma update_empty_fields:
  "buffering (update_empty s t) = buffering s" "event_buffer (update_empty s t) = event_buffer s"
  "n_events (update_empty s t) = n_events s + 1" "ccons (update_empty s t) = ccons s"
  "unixtime (update_empty s t) = unixtime s @ [Some t]"
  "max_rssi (update_empty s t) = max_rssi s @ [None]"
  "sensor_id (update_empty s t) = sensor_id s"
  "location_map_unknown (update_empty s t) = location_map_unknown s"
  "last_event (update_empty s t) = last_event s"
  by (simp_all add: update_empty_def fill_rows_def Let_def)

lemma inner_init1: "event_buffer (foldl add_ccon s cs) = event_buffer s \<and> buffering (foldl add_ccon s cs) = buffering s"
  by (induction cs arbitrary: s) (simp_all add: add_ccon_def)

lemma outer_init1: "event_buffer (foldl (\<lambda>s loc. foldl add_ccon s loc) s locs) = event_buffer s
   \<and> buffering (foldl (\<lambda>s loc. foldl add_ccon s loc) s locs) = buffering s"
  by (induction locs arbitrary: s) (simp_all add: inner_init1)

lemma inner_init2: "event_buffer (foldl (\<lambda>s' j. map_ccon i s') s js) = event_buffer s
   \<and> buffering (foldl (\<lambda>s' j. map_ccon i s') s js) = buffering s"
  by (induction js arbitrary: s) (simp_all add: map_ccon_def)

lemma outer_init2: "event_buffer (foldl (\<lambda>s i. foldl (\<lambda>s' j. map_ccon i s') s (f i)) s is) = event_buffer s
   \<and> buffering (foldl (\<lambda>s i. foldl (\<lambda>s' j. map_ccon i s') s (f i)) s is) = buffering s"
  by (induction "is" arbitrary: s) (simp_all add: inner_init2)

lemma Sensor_init_buffer: "event_buffer (Sensor_init locations sid) = [] \<and> buffering (Sensor_init locations sid) = False"
  by (simp add: Sensor_init_def initialise_ccons_list_def Let_def outer_init2 outer_init1)

section \<open>One round of the loop over the buffered events\<close>

lemma update_fresh: "k \<notin> fst ` set al \<Longrightarrow> AList.update k v al = al @ [(k, v)]"
  by (induction al) auto

lemma dict_ok_length: "dict_ok s \<Longrightarrow> length (ccons s) = length (rssi s)"
proof -
  assume "dict_ok s"
  then have "length (map snd (ccons s)) = length [0..<length (rssi s)]"
    by (simp add: dict_ok_def)
  then show ?thesis by simp
qed

lemma dict_ok_bound:
  assumes "dict_ok s" "map_of (ccons s) c = Some i"
  shows "i < length (rssi s)"
proof -
  from assms(2) have "(c, i) \<in> set (ccons s)" by (rule map_of_SomeD)
  then have "i \<in> set (map snd (ccons s))" by force
  with assms(1) show ?thesis by (simp add: dict_ok_def)
qed

lemma dict_ok_inj:
  assumes "dict_ok s" "map_of (ccons s) c = Some i" "map_of (ccons s) c' = Some i"
  shows "c = c'"
proof -
  from assms(2,3) have m: "(c, i) \<in> set (ccons s)" "(c', i) \<in> set (ccons s)"
    by (auto dest: map_of_SomeD)
  from assms(1) have "distinct (map snd (ccons s))" by (simp add: dict_ok_def)
  then have "inj_on snd (set (ccons s))" by (simp add: distinct_map)
  with m have "(c, i) = (c', i)" by (intro inj_onD [of snd "set (ccons s)"]) simp_all
  then show ?thesis by simp
qed

lemma map_of_None_fresh: "map_of al k = None \<Longrightarrow> k \<notin> fst ` set al"
  by (simp add: map_of_eq_None_iff)

lemma map_of_snoc_fresh:
  "map_of al k = None \<Longrightarrow>
   map_of (al @ [(k, v)]) k' = (if k' = k then Some v else map_of al k')"
  by (auto simp: map_add_def split: option.splits)

lemma register_ccon_new:
  assumes "map_of (ccons s) (ccon_id ev) = None" "length (ccons s) = length (rssi s)"
    and "register_ccon ev s = Inr s1"
  shows "rssi s1 = rssi s @ [replicate (n_events s - 1) (Some 0)]
     \<and> ccons s1 = ccons s @ [(ccon_id ev, length (rssi s))]"
proof -
  from assms(1) have "ccon_id ev \<notin> fst ` set (ccons s)" by (rule map_of_None_fresh)
  then have "AList.update (ccon_id ev) (length (rssi s)) (ccons s)
      = ccons s @ [(ccon_id ev, length (rssi s))]" by (rule update_fresh)
  with assms show ?thesis
    by (auto simp: register_ccon_def Let_def split: option.splits)
qed

lemma register_ccon_known:
  "map_of (ccons s) (ccon_id ev) = Some i \<Longrightarrow> register_ccon ev s = Inr s"
  by (simp add: register_ccon_def)

lemma append_rssi_Inr:
  assumes "append_rssi ev s = Inr s1"
  shows "\<exists>i. map_of (ccons s) (ccon_id ev) = Some i \<and> i < length (rssi s)
     \<and> rssi s1 = (rssi s)[i := rssi s ! i @ [Some (signal_strength ev)]]
     \<and> ccons s1 = ccons s"
  using assms by (auto simp: append_rssi_def split: option.splits if_splits)

lemma commit_event_cases:
  assumes ok: "dict_ok s" and c: "commit_event ev s = Inr s1"
  shows "(\<exists>i. map_of (ccons s) (ccon_id ev) = Some i \<and> i < length (rssi s)
            \<and> rssi s1 = (rssi s)[i := rssi s ! i @ [Some (signal_strength ev)]]
            \<and> ccons s1 = ccons s)
       \<or> (map_of (ccons s) (ccon_id ev) = None
            \<and> rssi s1 = rssi s @ [replicate (n_events s - 1) (Some 0) @ [Some (signal_strength ev)]]
            \<and> ccons s1 = ccons s @ [(ccon_id ev, length (rssi s))])"
proof (cases "map_of (ccons s) (ccon_id ev)")
  case None
  have len: "length (ccons s) = length (rssi s)" using ok by (rule dict_ok_length)
  from c obtain s0 where r: "register_ccon ev s = Inr s0" and a: "append_rssi ev s0 = Inr s1"
    by (auto simp: commit_event_def split: sum.splits)
  from register_ccon_new [OF None len r] have
    r0: "rssi s0 = rssi s @ [replicate (n_events s - 1) (Some 0)]"
    and c0: "ccons s0 = ccons s @ [(ccon_id ev, length (rssi s))]" by simp_all
  from append_rssi_Inr [OF a] obtain i where
    i: "map_of (ccons s0) (ccon_id ev) = Some i"
    and r1: "rssi s1 = (rssi s0)[i := rssi s0 ! i @ [Some (signal_strength ev)]]"
    and c1: "ccons s1 = ccons s0" by blast
  from i c0 None have "i = length (rssi s)" by (simp add: map_add_def)
  with r1 r0 have "rssi s1 = rssi s @ [replicate (n_events s - 1) (Some 0) @ [Some (signal_strength ev)]]"
    by simp
  with None c1 c0 show ?thesis by simp
next
  case (Some i)
  then have "register_ccon ev s = Inr s" by (rule register_ccon_known)
  with c have "append_rssi ev s = Inr s1" by (simp add: commit_event_def)
  from append_rssi_Inr [OF this] Some show ?thesis by auto
qed

lemma commit_event_total:
  assumes ok: "dict_ok s" and u: "location_map_unknown s \<noteq> None"
  shows "\<exists>s1. commit_event ev s = Inr s1"
proof (cases "map_of (ccons s) (ccon_id ev)")
  case None
  then have "ccon_id ev \<notin> fst ` set (ccons s)" by (rule map_of_None_fresh)
  then have fresh: "AList.update (ccon_id ev) (length (ccons s)) (ccons s)
      = ccons s @ [(ccon_id ev, length (ccons s))]" by (rule update_fresh)
  have len: "length (ccons s) = length (rssi s)" using ok by (rule dict_ok_length)
  from u obtain z where z: "location_map_unknown s = Some z" by auto
  define s0 where "s0 = s\<lparr>rssi := rssi s @ [replicate (n_events s - 1) (Some 0)],
      ccons := ccons s @ [(ccon_id ev, length (ccons s))],
      ccon_ids := ccon_ids s @ [ccon_id ev],
      location_map := location_map s @ [z]\<rparr>"
  have r: "register_ccon ev s = Inr s0"
    using None z fresh by (simp add: register_ccon_def Let_def s0_def)
  have m: "map_of (ccons s0) (ccon_id ev) = Some (length (ccons s))"
    using None by (simp add: s0_def map_add_def)
  have l: "length (ccons s) < length (rssi s0)" using len by (simp add: s0_def)
  from m l have "\<exists>s1. append_rssi ev s0 = Inr s1" by (simp add: append_rssi_def)
  with r show ?thesis by (simp add: commit_event_def)
next
  case (Some i)
  with ok have "i < length (rssi s)" by (auto dest: dict_ok_bound)
  with Some show ?thesis
    by (simp add: commit_event_def register_ccon_def append_rssi_def)
qed

lemma dict_ok_step:
  assumes ok: "dict_ok s" and c: "commit_event ev s = Inr s1"
  shows "dict_ok s1"
  using commit_event_cases [OF ok c] ok
proof (elim disjE exE conjE)
  fix i assume "rssi s1 = (rssi s)[i := rssi s ! i @ [Some (signal_strength ev)]]" "ccons s1 = ccons s"
  with ok show ?thesis by (simp add: dict_ok_def)
next
  assume n: "map_of (ccons s) (ccon_id ev) = None"
    and r: "rssi s1 = rssi s @ [replicate (n_events s - 1) (Some 0) @ [Some (signal_strength ev)]]"
    and d: "ccons s1 = ccons s @ [(ccon_id ev, length (rssi s))]"
  from n have "ccon_id ev \<notin> fst ` set (ccons s)" by (rule map_of_None_fresh)
  with ok r d show ?thesis by (simp add: dict_ok_def)
qed


lemma tl_snoc_no_None: "row \<noteq> [] \<Longrightarrow> None \<notin> set (tl row) \<Longrightarrow> None \<notin> set (tl (row @ [Some v]))"
  by (cases row) auto

lemma tl_replicate_no_None: "None \<notin> set (tl (replicate m (Some (0::int)) @ [Some v]))"
  by (cases m) auto

lemma commit_event_step:
  assumes m: "mid_ok (ev # evs) s" and c: "commit_event ev s = Inr s1"
  shows "mid_ok evs s1"
    and "length (rssi s) \<le> length (rssi s1)"
    and "\<forall>k. k \<noteq> ccon_id ev \<longrightarrow> map_of (ccons s1) k = map_of (ccons s) k"
    and "\<forall>k j. map_of (ccons s) k = Some j \<longrightarrow> map_of (ccons s1) k = Some j"
    and "\<forall>j<length (rssi s). map_of (ccons s) (ccon_id ev) \<noteq> Some j \<longrightarrow> rssi s1 ! j = rssi s ! j"
    and "\<exists>i. map_of (ccons s1) (ccon_id ev) = Some i \<and> i < length (rssi s1)
           \<and> rssi s1 ! i = row_after ev s
           \<and> (map_of (ccons s) (ccon_id ev) = None \<longrightarrow> length (rssi s) \<le> i)"
proof -
  from m have n2: "2 \<le> n_events s" and ok: "dict_ok s"
    and rows: "\<forall>row\<in>set (rssi s). (length row = n_events s - 1 \<or> length row = n_events s)
        \<and> None \<notin> set (tl row)"
    and dist: "ccon_id ev \<notin> ccon_id ` set evs" "distinct (map ccon_id evs)"
    and pend: "\<forall>e\<in>set (ev # evs). \<forall>i. map_of (ccons s) (ccon_id e) = Some i \<longrightarrow>
        length (rssi s ! i) = n_events s - 1"
    by (simp_all add: mid_ok_def)
  have n1: "n_events s1 = n_events s" using commit_event_fields [OF c] by simp
  have others: "\<forall>e\<in>set evs. ccon_id e \<noteq> ccon_id ev"
    using dist(1) by (metis imageI)
  have ok1: "dict_ok s1" using ok c by (rule dict_ok_step)
  let ?sig = "Some (signal_strength ev)"
  from commit_event_cases [OF ok c]
  have "mid_ok evs s1 \<and> length (rssi s) \<le> length (rssi s1)
    \<and> (\<forall>k. k \<noteq> ccon_id ev \<longrightarrow> map_of (ccons s1) k = map_of (ccons s) k)
    \<and> (\<forall>k j. map_of (ccons s) k = Some j \<longrightarrow> map_of (ccons s1) k = Some j)
    \<and> (\<forall>j<length (rssi s). map_of (ccons s) (ccon_id ev) \<noteq> Some j \<longrightarrow> rssi s1 ! j = rssi s ! j)
    \<and> (\<exists>i. map_of (ccons s1) (ccon_id ev) = Some i \<and> i < length (rssi s1)
           \<and> rssi s1 ! i = row_after ev s
           \<and> (map_of (ccons s) (ccon_id ev) = None \<longrightarrow> length (rssi s) \<le> i))"
  proof (elim disjE exE conjE)
    fix i
    assume k: "map_of (ccons s) (ccon_id ev) = Some i" and il: "i < length (rssi s)"
      and r: "rssi s1 = (rssi s)[i := rssi s ! i @ [?sig]]" and d: "ccons s1 = ccons s"
    from pend k have li: "length (rssi s ! i) = n_events s - 1" by simp
    from il have mem: "rssi s ! i \<in> set (rssi s)" by simp
    with rows have tli: "None \<notin> set (tl (rssi s ! i))" by blast
    from li n2 have ne: "rssi s ! i \<noteq> []" by auto
    have newrow: "length (rssi s ! i @ [?sig]) = n_events s
        \<and> None \<notin> set (tl (rssi s ! i @ [?sig]))"
      using li n2 tl_snoc_no_None [OF ne tli] by simp
    have rows1: "\<forall>row\<in>set (rssi s1). (length row = n_events s1 - 1 \<or> length row = n_events s1)
        \<and> None \<notin> set (tl row)"
    proof
      fix row assume "row \<in> set (rssi s1)"
      then have "row \<in> insert (rssi s ! i @ [?sig]) (set (rssi s))"
        using r set_update_subset_insert by fastforce
      with newrow rows n1 show "(length row = n_events s1 - 1 \<or> length row = n_events s1)
        \<and> None \<notin> set (tl row)" by auto
    qed
    have pend1: "\<forall>e\<in>set evs. \<forall>j. map_of (ccons s1) (ccon_id e) = Some j \<longrightarrow>
        length (rssi s1 ! j) = n_events s1 - 1"
    proof (intro ballI allI impI)
      fix e j assume e: "e \<in> set evs" and j: "map_of (ccons s1) (ccon_id e) = Some j"
      from e others have ne: "ccon_id e \<noteq> ccon_id ev" by blast
      from j d have j': "map_of (ccons s) (ccon_id e) = Some j" by simp
      have "j \<noteq> i" using dict_ok_inj [OF ok j'] k ne by auto
      with r have "rssi s1 ! j = rssi s ! j" by simp
      with pend e j' n1 show "length (rssi s1 ! j) = n_events s1 - 1" by simp
    qed
    have "mid_ok evs s1"
      using n2 n1 ok1 rows1 dist pend1 by (simp add: mid_ok_def)
    moreover have "rssi s1 ! i = row_after ev s"
      using r il k by (simp add: row_after_def)
    moreover have "\<forall>j<length (rssi s). map_of (ccons s) (ccon_id ev) \<noteq> Some j \<longrightarrow> rssi s1 ! j = rssi s ! j"
      using r k by simp
    ultimately show ?thesis using r d k il by simp
  next
    assume k: "map_of (ccons s) (ccon_id ev) = None"
      and r: "rssi s1 = rssi s @ [replicate (n_events s - 1) (Some 0) @ [?sig]]"
      and d: "ccons s1 = ccons s @ [(ccon_id ev, length (rssi s))]"
    have look: "map_of (ccons s1) k' = (if k' = ccon_id ev then Some (length (rssi s))
        else map_of (ccons s) k')" for k'
      unfolding d using k by (rule map_of_snoc_fresh)
    have newrow: "length (replicate (n_events s - 1) (Some (0::int)) @ [?sig]) = n_events s"
      using n2 by simp
    have rows1: "\<forall>row\<in>set (rssi s1). (length row = n_events s1 - 1 \<or> length row = n_events s1)
        \<and> None \<notin> set (tl row)"
      using r rows n1 newrow tl_replicate_no_None by auto
    have pend1: "\<forall>e\<in>set evs. \<forall>j. map_of (ccons s1) (ccon_id e) = Some j \<longrightarrow>
        length (rssi s1 ! j) = n_events s1 - 1"
    proof (intro ballI allI impI)
      fix e j assume e: "e \<in> set evs" and j: "map_of (ccons s1) (ccon_id e) = Some j"
      from e others have ne: "ccon_id e \<noteq> ccon_id ev" by blast
      with j look have j': "map_of (ccons s) (ccon_id e) = Some j" by simp
      then have "j < length (rssi s)" using ok by (auto dest: dict_ok_bound)
      with r have "rssi s1 ! j = rssi s ! j" by (simp add: nth_append)
      with pend e j' n1 show "length (rssi s1 ! j) = n_events s1 - 1" by simp
    qed
    have "mid_ok evs s1"
      using n2 n1 ok1 rows1 dist pend1 by (simp add: mid_ok_def)
    moreover have "rssi s1 ! length (rssi s) = row_after ev s"
      using r k by (simp add: row_after_def)
    moreover have "\<forall>j<length (rssi s). rssi s1 ! j = rssi s ! j"
      using r by (simp add: nth_append)
    moreover have "\<forall>k' j. map_of (ccons s) k' = Some j \<longrightarrow> map_of (ccons s1) k' = Some j"
      using look k by auto
    ultimately show ?thesis using r look by simp
  qed
  then show "mid_ok evs s1"
    and "length (rssi s) \<le> length (rssi s1)"
    and "\<forall>k. k \<noteq> ccon_id ev \<longrightarrow> map_of (ccons s1) k = map_of (ccons s) k"
    and "\<forall>k j. map_of (ccons s) k = Some j \<longrightarrow> map_of (ccons s1) k = Some j"
    and "\<forall>j<length (rssi s). map_of (ccons s) (ccon_id ev) \<noteq> Some j \<longrightarrow> rssi s1 ! j = rssi s ! j"
    and "\<exists>i. map_of (ccons s1) (ccon_id ev) = Some i \<and> i < length (rssi s1)
           \<and> rssi s1 ! i = row_after ev s
           \<and> (map_of (ccons s) (ccon_id ev) = None \<longrightarrow> length (rssi s) \<le> i)"
    by blast+
qed


lemma row_after_frame:
  assumes "map_of (ccons s1) (ccon_id e) = map_of (ccons s) (ccon_id e)"
    and "n_events s1 = n_events s"
    and "\<forall>j. map_of (ccons s) (ccon_id e) = Some j \<longrightarrow> rssi s1 ! j = rssi s ! j"
  shows "row_after e s1 = row_after e s"
  using assms by (simp add: row_after_def split: option.splits)

lemma commit_events_loop:
  assumes "mid_ok evs s" "commit_events evs s = Inr s'"
  shows "mid_ok [] s' \<and> n_events s' = n_events s \<and> length (rssi s) \<le> length (rssi s')
    \<and> (\<forall>k j. map_of (ccons s) k = Some j \<longrightarrow> map_of (ccons s') k = Some j)
    \<and> (\<forall>j<length (rssi s). (\<forall>e\<in>set evs. map_of (ccons s) (ccon_id e) \<noteq> Some j)
          \<longrightarrow> rssi s' ! j = rssi s ! j)
    \<and> (\<forall>e\<in>set evs. \<exists>i. map_of (ccons s') (ccon_id e) = Some i \<and> i < length (rssi s')
          \<and> rssi s' ! i = row_after e s
          \<and> (map_of (ccons s) (ccon_id e) = None \<longrightarrow> length (rssi s) \<le> i))"
  using assms
proof (induction evs arbitrary: s)
  case Nil
  then show ?case by (simp add: mid_ok_def)
next
  case (Cons ev evs)
  from Cons.prems(2) obtain s1 where c: "commit_event ev s = Inr s1"
    and rest: "commit_events evs s1 = Inr s'" by (auto split: sum.splits)
  note step = commit_event_step [OF Cons.prems(1) c]
  note IH = Cons.IH [OF step(1) rest]
  have n1: "n_events s1 = n_events s" using commit_event_fields [OF c] by simp
  from Cons.prems(1) have ok: "dict_ok s" and notin: "ccon_id ev \<notin> ccon_id ` set evs"
    by (simp_all add: mid_ok_def)
  have others: "\<forall>e\<in>set evs. ccon_id e \<noteq> ccon_id ev"
    using notin by (metis imageI)
  from step(1) have ok1: "dict_ok s1" by (simp add: mid_ok_def)
  have A: "mid_ok [] s'" using IH by blast
  have B: "n_events s' = n_events s" using IH n1 by simp
  have C: "length (rssi s) \<le> length (rssi s')" using IH step(2) by linarith
  have D: "\<forall>k j. map_of (ccons s) k = Some j \<longrightarrow> map_of (ccons s') k = Some j"
    using IH step(4) by blast
  have E: "\<forall>j<length (rssi s). (\<forall>e\<in>set (ev # evs). map_of (ccons s) (ccon_id e) \<noteq> Some j)
          \<longrightarrow> rssi s' ! j = rssi s ! j"
  proof (intro allI impI)
    fix j assume j: "j < length (rssi s)"
      and un: "\<forall>e\<in>set (ev # evs). map_of (ccons s) (ccon_id e) \<noteq> Some j"
    from un step(5) j have a: "rssi s1 ! j = rssi s ! j" by simp
    have "\<forall>e\<in>set evs. map_of (ccons s1) (ccon_id e) \<noteq> Some j"
      using un others step(3) by simp
    moreover have "j < length (rssi s1)" using j step(2) by linarith
    ultimately have "rssi s' ! j = rssi s1 ! j" using IH by blast
    with a show "rssi s' ! j = rssi s ! j" by simp
  qed
  have F: "\<exists>i. map_of (ccons s') (ccon_id e) = Some i \<and> i < length (rssi s')
          \<and> rssi s' ! i = row_after e s
          \<and> (map_of (ccons s) (ccon_id e) = None \<longrightarrow> length (rssi s) \<le> i)"
    if e: "e \<in> set (ev # evs)" for e
  proof (cases "e \<in> set evs")
    case True
    with others have ne: "ccon_id e \<noteq> ccon_id ev" by blast
    from IH True obtain i where i: "map_of (ccons s') (ccon_id e) = Some i" "i < length (rssi s')"
      "rssi s' ! i = row_after e s1"
      "map_of (ccons s1) (ccon_id e) = None \<longrightarrow> length (rssi s1) \<le> i" by blast
    have same: "map_of (ccons s1) (ccon_id e) = map_of (ccons s) (ccon_id e)"
      using step(3) ne by simp
    have rowsame: "\<forall>j. map_of (ccons s) (ccon_id e) = Some j \<longrightarrow> rssi s1 ! j = rssi s ! j"
    proof (intro allI impI)
      fix j assume j: "map_of (ccons s) (ccon_id e) = Some j"
      then have jl: "j < length (rssi s)" using ok by (auto dest: dict_ok_bound)
      have "map_of (ccons s) (ccon_id ev) \<noteq> Some j"
        using dict_ok_inj [OF ok j] ne by auto
      with step(5) jl show "rssi s1 ! j = rssi s ! j" by simp
    qed
    have "row_after e s1 = row_after e s" using same n1 rowsame by (rule row_after_frame)
    moreover have "map_of (ccons s) (ccon_id e) = None \<longrightarrow> length (rssi s) \<le> i"
      using i(4) same step(2) by auto
    ultimately show ?thesis using i by auto
  next
    case False
    with e have eq: "e = ev" by simp
    from step(6) obtain i where i: "map_of (ccons s1) (ccon_id ev) = Some i" "i < length (rssi s1)"
      "rssi s1 ! i = row_after ev s"
      "map_of (ccons s) (ccon_id ev) = None \<longrightarrow> length (rssi s) \<le> i" by (elim exE conjE)
    have "\<forall>e'\<in>set evs. map_of (ccons s1) (ccon_id e') \<noteq> Some i"
    proof
      fix e' assume e': "e' \<in> set evs"
      show "map_of (ccons s1) (ccon_id e') \<noteq> Some i"
      proof
        assume "map_of (ccons s1) (ccon_id e') = Some i"
        from dict_ok_inj [OF ok1 this i(1)] others e' show False by blast
      qed
    qed
    with i(2) IH have "rssi s' ! i = rssi s1 ! i" by blast
    moreover have "map_of (ccons s') (ccon_id ev) = Some i" using IH i(1) by blast
    moreover have "i < length (rssi s')" using IH i(2) by linarith
    ultimately show ?thesis using i eq by auto
  qed
  from A B C D E F show ?case by blast
qed

lemma commit_events_total:
  assumes "mid_ok evs s" "location_map_unknown s \<noteq> None"
  shows "\<exists>s'. commit_events evs s = Inr s'"
  using assms
proof (induction evs arbitrary: s)
  case Nil
  then show ?case by simp
next
  case (Cons ev evs)
  from Cons.prems have ok: "dict_ok s" by (simp add: mid_ok_def)
  from commit_event_total [OF ok Cons.prems(2)] obtain s1 where c: "commit_event ev s = Inr s1"
    by blast
  have m1: "mid_ok evs s1" using Cons.prems(1) c by (rule commit_event_step(1))
  have u1: "location_map_unknown s1 \<noteq> None"
    using commit_event_fields [OF c] Cons.prems(2) by simp
  from Cons.IH [OF m1 u1] c show ?case by simp
qed

lemma max_loop_total:
  "\<forall>row\<in>set rows. row \<noteq> [] \<and> last row \<noteq> None \<Longrightarrow> \<exists>a. max_loop rows i am vm = Inr a"
  by (induction rows arbitrary: i am vm) (auto split: option.splits)

lemma rows_ok_mid:
  assumes "rows_ok s"
  shows "mid_ok (event_buffer s) (s\<lparr>unixtime := u, n_events := n_events s + 1\<rparr>)"
proof -
  from assms have ok: "dict_ok s" by (simp add: rows_ok_def)
  have "\<forall>i. map_of (ccons s) c = Some i \<longrightarrow> length (rssi s ! i) = n_events s" for c
  proof (intro allI impI)
    fix i assume "map_of (ccons s) c = Some i"
    then have "i < length (rssi s)" using ok by (auto dest: dict_ok_bound)
    then have "rssi s ! i \<in> set (rssi s)" by simp
    with assms show "length (rssi s ! i) = n_events s" by (simp add: rows_ok_def)
  qed
  with assms show ?thesis by (simp add: rows_ok_def mid_ok_def dict_ok_def)
qed

lemma last_in_tl: "2 \<le> length row \<Longrightarrow> last row \<in> set (tl row)"
  by (cases row) auto

lemma fill_rows_mid:
  assumes "mid_ok [] s3"
  shows "\<forall>row\<in>set (rssi (fill_rows s3)). length row = n_events s3 \<and> None \<notin> set (tl row)"
proof
  fix row assume "row \<in> set (rssi (fill_rows s3))"
  then obtain r where r: "r \<in> set (rssi s3)" and row: "row = fill_row (n_events s3) r"
    by (auto simp: fill_rows_def)
  from assms r have n2: "2 \<le> n_events s3"
    and l: "length r = n_events s3 - 1 \<or> length r = n_events s3"
    and t: "None \<notin> set (tl r)" by (auto simp: mid_ok_def)
  show "length row = n_events s3 \<and> None \<notin> set (tl row)"
  proof (cases "length r < n_events s3")
    case True
    with l n2 have "r \<noteq> []" by auto
    from tl_snoc_no_None [OF this t] True l row show ?thesis by (simp add: fill_row_def)
  next
    case False
    with l t row n2 show ?thesis by (auto simp add: fill_row_def)
  qed
qed

lemma update_event_data_rows:
  assumes inv: "rows_ok s" and f: "update_event_data s t = Inr s'"
  shows "rows_ok s'"
    and "n_events s' = n_events s + 1"
    and "\<forall>e\<in>set (event_buffer s). \<exists>i. map_of (ccons s') (ccon_id e) = Some i
           \<and> i < length (rssi s')
           \<and> rssi s' ! i = (case map_of (ccons s) (ccon_id e) of
                               None \<Rightarrow> replicate (n_events s) (Some 0)
                             | Some j \<Rightarrow> rssi s ! j) @ [Some (signal_strength e)]
           \<and> (map_of (ccons s) (ccon_id e) = None \<longrightarrow> length (rssi s) \<le> i)"
proof -
  let ?s2 = "s\<lparr>unixtime := unixtime s @ [Some t], n_events := n_events s + 1\<rparr>"
  from f obtain s3 a where c: "commit_events (event_buffer s) ?s2 = Inr s3"
    and s': "s' = (fill_rows s3)\<lparr>max_rssi := max_rssi (fill_rows s3) @ [Some a],
                     buffering := False, event_buffer := []\<rparr>"
    by (auto simp: update_event_data_def last_update_time_def Let_def
        split: if_splits sum.splits)
  have m: "mid_ok (event_buffer s) ?s2" using inv by (rule rows_ok_mid)
  note L = commit_events_loop [OF m c]
  from L have m3: "mid_ok [] s3" and n3: "n_events s3 = n_events s + 1" by simp_all
  note R = fill_rows_mid [OF m3]
  have r': "rssi s' = map (fill_row (n_events s3)) (rssi s3)" "ccons s' = ccons s3"
    "n_events s' = n_events s3" "event_buffer s' = []"
    by (simp_all add: s' fill_rows_def)
  from m3 have "dict_ok s3" by (simp add: mid_ok_def)
  then have ok': "dict_ok s'" using r' by (simp add: dict_ok_def)
  have rows': "\<forall>row\<in>set (rssi s'). length row = n_events s' \<and> None \<notin> set (tl row)"
    using R r' by (simp add: fill_rows_def)
  show "rows_ok s'" using ok' rows' r' n3 by (simp add: rows_ok_def)
  show "n_events s' = n_events s + 1" using r' n3 by simp
  show "\<forall>e\<in>set (event_buffer s). \<exists>i. map_of (ccons s') (ccon_id e) = Some i
           \<and> i < length (rssi s')
           \<and> rssi s' ! i = (case map_of (ccons s) (ccon_id e) of
                               None \<Rightarrow> replicate (n_events s) (Some 0)
                             | Some j \<Rightarrow> rssi s ! j) @ [Some (signal_strength e)]
           \<and> (map_of (ccons s) (ccon_id e) = None \<longrightarrow> length (rssi s) \<le> i)"
  proof
    fix e assume "e \<in> set (event_buffer s)"
    with L obtain i where i: "map_of (ccons s3) (ccon_id e) = Some i" "i < length (rssi s3)"
      "rssi s3 ! i = row_after e ?s2"
      "map_of (ccons ?s2) (ccon_id e) = None \<longrightarrow> length (rssi ?s2) \<le> i" by blast
    have ra: "row_after e ?s2 = (case map_of (ccons s) (ccon_id e) of
                               None \<Rightarrow> replicate (n_events s) (Some 0)
                             | Some j \<Rightarrow> rssi s ! j) @ [Some (signal_strength e)]"
      by (simp add: row_after_def split: option.splits)
    have len: "length (rssi s3 ! i) = n_events s3"
    proof (cases "map_of (ccons s) (ccon_id e)")
      case None
      with i(3) ra n3 show ?thesis by simp
    next
      case (Some j)
      then have "j < length (rssi s)" using inv by (auto simp: rows_ok_def dest: dict_ok_bound)
      then have "rssi s ! j \<in> set (rssi s)" by simp
      with inv have "length (rssi s ! j) = n_events s" by (simp add: rows_ok_def)
      with Some i(3) ra n3 show ?thesis by simp
    qed
    have "rssi s' ! i = rssi s3 ! i" using r' i(2) len by (simp add: fill_row_def)
    with i ra r' show "\<exists>i. map_of (ccons s') (ccon_id e) = Some i
           \<and> i < length (rssi s')
           \<and> rssi s' ! i = (case map_of (ccons s) (ccon_id e) of
                               None \<Rightarrow> replicate (n_events s) (Some 0)
                             | Some j \<Rightarrow> rssi s ! j) @ [Some (signal_strength e)]
           \<and> (map_of (ccons s) (ccon_id e) = None \<longrightarrow> length (rssi s) \<le> i)"
      by (intro exI [of _ i]) simp
  qed
qed

lemma update_event_data_total:
  assumes inv: "rows_ok s" and b: "event_buffer s \<noteq> []" and u: "location_map_unknown s \<noteq> None"
  shows "\<exists>s'. update_event_data s t = Inr s'"
proof -
  let ?s2 = "s\<lparr>unixtime := unixtime s @ [Some t], n_events := n_events s + 1\<rparr>"
  have m: "mid_ok (event_buffer s) ?s2" using inv by (rule rows_ok_mid)
  from commit_events_total [OF m] u obtain s3 where c: "commit_events (event_buffer s) ?s2 = Inr s3"
    by auto
  from commit_events_loop [OF m c] have m3: "mid_ok [] s3" by simp
  note R = fill_rows_mid [OF m3]
  from m3 have n2: "2 \<le> n_events s3" by (simp add: mid_ok_def)
  have "\<forall>row\<in>set (rssi (fill_rows s3)). row \<noteq> [] \<and> last row \<noteq> None"
  proof
    fix row assume "row \<in> set (rssi (fill_rows s3))"
    with R have l: "length row = n_events s3" and t: "None \<notin> set (tl row)" by auto
    from l n2 have "last row \<in> set (tl row)" by (intro last_in_tl) simp
    with t have "last row \<noteq> None" by metis
    moreover from l n2 have "row \<noteq> []" by auto
    ultimately show "row \<noteq> [] \<and> last row \<noteq> None" by simp
  qed
  from max_loop_total [OF this, of 0 "- 1" "- 1"] obtain a where
    "get_max_rssi (rssi (fill_rows s3)) = Inr a" by (auto simp: get_max_rssi_def)
  with c b show ?thesis
    by (simp add: update_event_data_def last_update_time_def Let_def)
qed

section \<open>The sensor after construction\<close>

lemma add_ccon_fields:
  "n_events (add_ccon s c) = n_events s" "event_buffer (add_ccon s c) = event_buffer s"
  "buffering (add_ccon s c) = buffering s" "unixtime (add_ccon s c) = unixtime s"
  "max_rssi (add_ccon s c) = max_rssi s"
  "location_map_unknown (add_ccon s c) = location_map_unknown s"
  "rssi (add_ccon s c) = rssi s @ [[None]]"
  "ccons (add_ccon s c) = AList.update c (length (ccons s)) (ccons s)"
  by (simp_all add: add_ccon_def)

lemma foldl_add_ccon_fields:
  "n_events (foldl add_ccon s cs) = n_events s \<and> event_buffer (foldl add_ccon s cs) = event_buffer s
   \<and> buffering (foldl add_ccon s cs) = buffering s \<and> unixtime (foldl add_ccon s cs) = unixtime s
   \<and> max_rssi (foldl add_ccon s cs) = max_rssi s
   \<and> location_map_unknown (foldl add_ccon s cs) = location_map_unknown s
   \<and> rssi (foldl add_ccon s cs) = rssi s @ replicate (length cs) [None]"
proof (induction cs arbitrary: s)
  case Nil
  then show ?case by simp
next
  case (Cons c cs)
  show ?case
    by (simp add: Cons.IH [of "add_ccon s c"] add_ccon_fields replicate_append_same)
qed

lemma foldl_add_ccon_dict:
  "distinct cs \<Longrightarrow> set cs \<inter> fst ` set (ccons s) = {} \<Longrightarrow> dict_ok s \<Longrightarrow>
   dict_ok (foldl add_ccon s cs)"
proof (induction cs arbitrary: s)
  case Nil
  then show ?case by simp
next
  case (Cons c cs)
  from Cons.prems have fresh: "c \<notin> fst ` set (ccons s)" by auto
  have len: "length (ccons s) = length (rssi s)" using Cons.prems(3) by (rule dict_ok_length)
  have cc: "ccons (add_ccon s c) = ccons s @ [(c, length (rssi s))]"
    using fresh len by (simp add: add_ccon_fields update_fresh)
  have ok: "dict_ok (add_ccon s c)"
    using Cons.prems(3) fresh cc by (simp add: dict_ok_def add_ccon_fields)
  have disj: "set cs \<inter> fst ` set (ccons (add_ccon s c)) = {}"
    using Cons.prems(1,2) cc by auto
  from Cons.prems(1) have "distinct cs" by simp
  from Cons.IH [OF this disj ok] show ?case by simp
qed

lemma map_ccon_fields:
  "n_events (map_ccon i s) = n_events s" "event_buffer (map_ccon i s) = event_buffer s"
  "buffering (map_ccon i s) = buffering s" "unixtime (map_ccon i s) = unixtime s"
  "max_rssi (map_ccon i s) = max_rssi s" "rssi (map_ccon i s) = rssi s"
  "ccons (map_ccon i s) = ccons s"
  "location_map_unknown (map_ccon i s) = Some (i + 1)"
  by (simp_all add: map_ccon_def)

lemma inner_map_fields:
  "n_events (foldl (\<lambda>s' j. map_ccon i s') s js) = n_events s
   \<and> unixtime (foldl (\<lambda>s' j. map_ccon i s') s js) = unixtime s
   \<and> max_rssi (foldl (\<lambda>s' j. map_ccon i s') s js) = max_rssi s
   \<and> rssi (foldl (\<lambda>s' j. map_ccon i s') s js) = rssi s
   \<and> ccons (foldl (\<lambda>s' j. map_ccon i s') s js) = ccons s
   \<and> location_map_unknown (foldl (\<lambda>s' j. map_ccon i s') s js)
       = (if js = [] then location_map_unknown s else Some (i + 1))"
proof (induction js arbitrary: s)
  case Nil
  then show ?case by simp
next
  case (Cons j js)
  show ?case by (simp add: Cons.IH [of "map_ccon i s"] map_ccon_fields)
qed

lemma outer_map_fields:
  "n_events (foldl (\<lambda>s i. foldl (\<lambda>s' j. map_ccon i s') s (f i)) s is) = n_events s
   \<and> unixtime (foldl (\<lambda>s i. foldl (\<lambda>s' j. map_ccon i s') s (f i)) s is) = unixtime s
   \<and> max_rssi (foldl (\<lambda>s i. foldl (\<lambda>s' j. map_ccon i s') s (f i)) s is) = max_rssi s
   \<and> rssi (foldl (\<lambda>s i. foldl (\<lambda>s' j. map_ccon i s') s (f i)) s is) = rssi s
   \<and> ccons (foldl (\<lambda>s i. foldl (\<lambda>s' j. map_ccon i s') s (f i)) s is) = ccons s
   \<and> ((location_map_unknown s \<noteq> None \<or> (\<exists>i\<in>set is. f i \<noteq> [])) \<longrightarrow>
        location_map_unknown (foldl (\<lambda>s i. foldl (\<lambda>s' j. map_ccon i s') s (f i)) s is) \<noteq> None)"
proof (induction "is" arbitrary: s)
  case Nil
  then show ?case by simp
next
  case (Cons i "is")
  show ?case
    using Cons.IH [of "foldl (\<lambda>s' j. map_ccon i s') s (f i)"] inner_map_fields [of i s "f i"]
    by (auto split: if_splits)
qed

lemma Sensor_init_unfold:
  "Sensor_init locations sid =
     foldl (\<lambda>s i. foldl (\<lambda>s' j. map_ccon i s') s [0..<length (locations ! i)])
       ((foldl add_ccon (blank sid) (concat locations))
          \<lparr>unixtime := unixtime (foldl add_ccon (blank sid) (concat locations)) @ [None],
           max_rssi := max_rssi (foldl add_ccon (blank sid) (concat locations)) @ [None],
           n_events := n_events (foldl add_ccon (blank sid) (concat locations)) + 1,
           location_map := []\<rparr>)
       [0..<length locations]"
proof -
  have "foldl (\<lambda>s loc. foldl add_ccon s loc) s0 locations
      = foldl add_ccon s0 (concat locations)" for s0
    by (induction locations arbitrary: s0) simp_all
  then have "foldl (\<lambda>s loc. foldl add_ccon s loc) (blank sid) locations
      = foldl add_ccon (blank sid) (concat locations)" .
  then show ?thesis
    by (simp add: Sensor_init_def initialise_ccons_list_def Let_def blank_def)
qed

lemma Sensor_init_fields:
  "n_events (Sensor_init locations sid) = 1"
  "unixtime (Sensor_init locations sid) = [None]"
  "max_rssi (Sensor_init locations sid) = [None]"
  "rssi (Sensor_init locations sid) = replicate (length (concat locations)) [None]"
  "ccons (Sensor_init locations sid) = ccons (foldl add_ccon (blank sid) (concat locations))"
  using foldl_add_ccon_fields [of "blank sid" "concat locations"]
  by (simp_all add: Sensor_init_unfold outer_map_fields) (simp_all add: blank_def)

lemma Sensor_init_unknown:
  assumes "concat locations \<noteq> []"
  shows "location_map_unknown (Sensor_init locations sid) \<noteq> None"
proof -
  from assms obtain loc where "loc \<in> set locations" "loc \<noteq> []" by auto
  then obtain i where "i < length locations" "locations ! i \<noteq> []"
    by (auto simp: in_set_conv_nth)
  then have "\<exists>i\<in>set [0..<length locations]. [0..<length (locations ! i)] \<noteq> []" by auto
  then show ?thesis
    using outer_map_fields [of "\<lambda>i. [0..<length (locations ! i)]" _ "[0..<length locations]"]
    unfolding Sensor_init_unfold by blast
qed

lemma Sensor_init_rows_ok:
  assumes "distinct (concat locations)"
  shows "rows_ok (Sensor_init locations sid)"
proof -
  have b: "dict_ok (blank sid)" by (simp add: dict_ok_def blank_def)
  have "set (concat locations) \<inter> fst ` set (ccons (blank sid)) = {}" by (simp add: blank_def)
  from foldl_add_ccon_dict [OF assms this b]
  have d: "dict_ok (foldl add_ccon (blank sid) (concat locations))" .
  have r: "rssi (foldl add_ccon (blank sid) (concat locations))
      = replicate (length (concat locations)) [None]"
    using foldl_add_ccon_fields [of "blank sid" "concat locations"] by (simp add: blank_def)
  have "dict_ok (Sensor_init locations sid)"
    using d r by (simp add: dict_ok_def Sensor_init_fields)
  then show ?thesis
    using Sensor_init_buffer [of locations sid]
    by (simp add: rows_ok_def Sensor_init_fields)
qed

lemma update_event_data_fields:
  assumes "update_event_data s t = Inr s'"
  shows "buffering s' = False" "event_buffer s' = []"
    "location_map_unknown s' = location_map_unknown s"
    "unixtime s' = unixtime s @ [Some t]"
    "n_events s' = n_events s + 1"
    "sensor_id s' = sensor_id s" "last_event s' = last_event s"
  using assms
  by (auto simp: update_event_data_def last_update_time_def Let_def fill_rows_def
      split: if_splits sum.splits dest!: commit_events_fields)

lemma update_empty_rows_ok:
  assumes "rows_ok s"
  shows "rows_ok (update_empty s t)"
proof -
  have r: "rssi (update_empty s t) = map (fill_row (n_events s + 1)) (rssi s)"
    by (simp add: update_empty_def fill_rows_def Let_def)
  have "length row = n_events s + 1 \<and> None \<notin> set (tl row)"
    if "row \<in> set (rssi (update_empty s t))" for row
  proof -
    from that r obtain r0 where r0: "r0 \<in> set (rssi s)" "row = fill_row (n_events s + 1) r0"
      by auto
    with assms have l: "length r0 = n_events s" "None \<notin> set (tl r0)" "1 \<le> n_events s"
      by (auto simp: rows_ok_def)
    then have "r0 \<noteq> []" by auto
    from tl_snoc_no_None [OF this l(2)] l(1) r0(2) show ?thesis by (simp add: fill_row_def)
  qed
  moreover have "dict_ok (update_empty s t)"
    using assms r by (simp add: rows_ok_def dict_ok_def update_empty_fields)
  ultimately show ?thesis using assms by (simp add: rows_ok_def update_empty_fields)
qed

lemma new_event_data_rows_ok:
  assumes "rows_ok s"
  shows "rows_ok (new_event_data s ev)"
  using assms distinct_new_event_data [of s ev]
  by (simp add: rows_ok_def dict_ok_def new_event_data_fields)

lemma run_call_rows_ok:
  assumes "rows_ok s" "run_call s c = Inr s1"
  shows "rows_ok s1 \<and> n_events s1 = n_events s + (if is_commit c then 1 else 0)
     \<and> location_map_unknown s1 = location_map_unknown s"
proof (cases c)
  case (Ingest ev)
  with assms new_event_data_rows_ok [OF assms(1), of ev] show ?thesis
    by (auto simp: new_event_data_fields)
next
  case (Flush t)
  with assms have f: "update_event_data s t = Inr s1" by simp
  from update_event_data_rows(1,2) [OF assms(1) f] update_event_data_fields(3) [OF f] Flush
  show ?thesis by simp
next
  case (FlushEmpty t)
  with assms update_empty_rows_ok [OF assms(1), of t] show ?thesis
    by (auto simp: update_empty_fields)
qed

lemma run_calls_rows_ok:
  assumes "rows_ok s" "run_calls s cs = Inr s'"
  shows "rows_ok s' \<and> n_events s' = n_events s + length (filter is_commit cs)
     \<and> location_map_unknown s' = location_map_unknown s"
  using assms
proof (induction cs arbitrary: s)
  case Nil
  then show ?case by simp
next
  case (Cons c cs)
  from Cons.prems(2) obtain s1 where c: "run_call s c = Inr s1" and r: "run_calls s1 cs = Inr s'"
    by (auto split: sum.splits)
  from run_call_rows_ok [OF Cons.prems(1) c] Cons.IH [OF _ r] show ?case by simp
qed

lemma rows_ok_lookup:
  assumes "rows_ok s" "map_of (ccons s) c = Some i"
  shows "i < length (rssi s) \<and> length (rssi s ! i) = n_events s"
proof -
  from assms have i: "i < length (rssi s)" by (auto simp: rows_ok_def dest: dict_ok_bound)
  then have "rssi s ! i \<in> set (rssi s)" by simp
  with assms(1) i show ?thesis by (simp add: rows_ok_def)
qed

section \<open>Row lengths\<close>

text \<open>
  Claim C4, as amended. Let the configured locations list every connector at most once, and
  let \<open>s\<close> be the sensor after any sequence of calls of \<^verbatim>\<open>new_event_data\<close>,
  \<^verbatim>\<open>update_event_data\<close> and \<^verbatim>\<open>update_empty\<close> that all returned. Then every connector known
  to the sensor has a row, and the row has \<^verbatim>\<open>n_events\<close> entries; \<^verbatim>\<open>n_events\<close> is 1 plus the
  number of commits so far; \<^verbatim>\<open>update_empty\<close> increases it by exactly 1 and so does every
  \<^verbatim>\<open>update_event_data\<close> that returns; and \<^verbatim>\<open>update_event_data\<close> does return whenever the
  buffer is not empty and the configuration has at least one connector.
\<close>

theorem row_length_invariant:
  assumes "distinct (concat locations)"
    and "run_calls (Sensor_init locations sid) calls = Inr s"
  shows "(\<forall>c i. map_of (ccons s) c = Some i \<longrightarrow>
            i < length (rssi s) \<and> length (rssi s ! i) = n_events s)
     \<and> n_events s = 1 + length (filter is_commit calls)
     \<and> n_events (update_empty s t) = n_events s + 1
     \<and> (\<forall>s'. update_event_data s t = Inr s' \<longrightarrow> n_events s' = n_events s + 1)
     \<and> (concat locations \<noteq> [] \<and> event_buffer s \<noteq> [] \<longrightarrow> (\<exists>s'. update_event_data s t = Inr s'))"
proof -
  have i0: "rows_ok (Sensor_init locations sid)" using assms(1) by (rule Sensor_init_rows_ok)
  from run_calls_rows_ok [OF i0 assms(2)] have inv: "rows_ok s"
    and n: "n_events s = 1 + length (filter is_commit calls)"
    and u: "location_map_unknown s = location_map_unknown (Sensor_init locations sid)"
    by (simp_all add: Sensor_init_fields)
  have "\<exists>s'. update_event_data s t = Inr s'" if "concat locations \<noteq> []" "event_buffer s \<noteq> []"
  proof -
    from that(1) u have "location_map_unknown s \<noteq> None" by (simp add: Sensor_init_unknown)
    with inv that(2) show ?thesis by (rule update_event_data_total)
  qed
  then show ?thesis
    using rows_ok_lookup [OF inv] n update_event_data_fields(5)
    by (auto simp: update_empty_fields)
qed


theorem row_length_invariant_witness:
  "distinct (concat [[''ConnA'', ''ConnB'']])
   \<and> run_calls (Sensor_init [[''ConnA'', ''ConnB'']] ''dev'')
        [Ingest (obs ''ConnA'' 50 0), Flush 2, FlushEmpty 40, Ingest (obs ''ConnC'' 40 41)]
      = Inr \<lparr>sensor_id = ''dev'', unixtime = [None, Some 2, Some 40],
          rssi = [[None, Some 50, Some 0], [None, Some 0, Some 0]],
          ccons = [(''ConnA'', 0), (''ConnB'', 1)], ccon_ids = [],
          max_rssi = [None, Some 0, None], n_events = 3, last_event = 41,
          buffering = True, event_buffer = [obs ''ConnC'' 40 41], location_map = [0, 0],
          location_map_unknown = Some 1\<rparr>
   \<and> map_of [(''ConnA'', 0), (''ConnB'', 1::nat)] ''ConnB'' = Some 1
   \<and> 1 < length [[None, Some 50, Some 0], [None, Some 0, Some (0::int)]]
   \<and> length ([[None, Some 50, Some 0], [None, Some 0, Some (0::int)]] ! 1) = 3
   \<and> (3::nat) = 1 + length (filter is_commit
          [Ingest (obs ''ConnA'' 50 0), Flush 2, FlushEmpty 40, Ingest (obs ''ConnC'' 40 41)])
   \<and> (\<exists>s'. update_event_data \<lparr>sensor_id = ''dev'', unixtime = [None, Some 2, Some 40],
          rssi = [[None, Some 50, Some 0], [None, Some 0, Some 0]],
          ccons = [(''ConnA'', 0), (''ConnB'', 1)], ccon_ids = [],
          max_rssi = [None, Some 0, None], n_events = 3, last_event = 41,
          buffering = True, event_buffer = [obs ''ConnC'' 40 41], location_map = [0, 0],
          location_map_unknown = Some 1\<rparr> 50 = Inr s' \<and> n_events s' = 4)"
proof -
  have h1: "distinct (concat [[''ConnA'', ''ConnB'']])" by simp
  have h2: "run_calls (Sensor_init [[''ConnA'', ''ConnB'']] ''dev'')
        [Ingest (obs ''ConnA'' 50 0), Flush 2, FlushEmpty 40, Ingest (obs ''ConnC'' 40 41)]
      = Inr \<lparr>sensor_id = ''dev'', unixtime = [None, Some 2, Some 40],
          rssi = [[None, Some 50, Some 0], [None, Some 0, Some 0]],
          ccons = [(''ConnA'', 0), (''ConnB'', 1)], ccon_ids = [],
          max_rssi = [None, Some 0, None], n_events = 3, last_event = 41,
          buffering = True, event_buffer = [obs ''ConnC'' 40 41], location_map = [0, 0],
          location_map_unknown = Some 1\<rparr>"
    by (simp add: sensor_defs upt_rec)
  note T = row_length_invariant [OF h1 h2, of 50]
  from T have a: "map_of [(''ConnA'', 0), (''ConnB'', 1::nat)] ''ConnB'' = Some 1
      \<and> 1 < length [[None, Some 50, Some 0], [None, Some 0, Some (0::int)]]
      \<and> length ([[None, Some 50, Some 0], [None, Some 0, Some (0::int)]] ! 1) = 3"
    by simp
  from T have b: "(3::nat) = 1 + length (filter is_commit
          [Ingest (obs ''ConnA'' 50 0), Flush 2, FlushEmpty 40, Ingest (obs ''ConnC'' 40 41)])"
    by simp
  from T have c: "\<exists>s'. update_event_data \<lparr>sensor_id = ''dev'', unixtime = [None, Some 2, Some 40],
          rssi = [[None, Some 50, Some 0], [None, Some 0, Some 0]],
          ccons = [(''ConnA'', 0), (''ConnB'', 1)], ccon_ids = [],
          max_rssi = [None, Some 0, None], n_events = 3, last_event = 41,
          buffering = True, event_buffer = [obs ''ConnC'' 40 41], location_map = [0, 0],
          location_map_unknown = Some 1\<rparr> 50 = Inr s' \<and> n_events s' = 4"
    by auto
  from h1 h2 a b c show ?thesis by blast
qed

text \<open>
  Claim C4 as stated fails when a connector is configured twice: the dictionary then has
  fewer keys than there are rows, a connector registered later shares the row index of
  ConnA, and after one commit the row of ConnA has 3 entries while \<^verbatim>\<open>n_events\<close> is 2.
\<close>

theorem duplicate_connector_row_length_counterexample:
  "run_calls (Sensor_init [[''ConnA'', ''ConnA'']] ''dev'')
     [Ingest (obs ''ConnA'' 50 0), Ingest (obs ''ConnC'' 40 1), Flush 2]
   = Inr \<lparr>sensor_id = ''dev'', unixtime = [None, Some 2],
          rssi = [[None, Some 0], [None, Some 50, Some 40], [Some 0, Some 0]],
          ccons = [(''ConnA'', 1), (''ConnC'', 1)], ccon_ids = [''ConnC''],
          max_rssi = [None, Some 1], n_events = 2, last_event = 1,
          buffering = False, event_buffer = [], location_map = [0, 0, 1],
          location_map_unknown = Some 1\<rparr>
   \<and> map_of [(''ConnA'', 1), (''ConnC'', 1::nat)] ''ConnA'' = Some 1
   \<and> length ([[None, Some 0], [None, Some 50, Some 40], [Some 0, Some (0::int)]] ! 1) = 3"
  by (simp add: sensor_defs upt_rec)

section \<open>Back-fill\<close>

text \<open>
  Claim C5, as amended. Let the configured locations list every connector at most once, let
  \<open>s\<close> be the sensor after any sequence of calls that all returned, and let \<open>k\<close> be its
  \<^verbatim>\<open>n_events\<close>, the index of the tick that the next commit writes. If the buffer holds an
  event of a connector that is not yet known, then after \<^verbatim>\<open>update_event_data\<close> the connector
  has a new row (its index is not below the old number of rows) that consists of exactly
  \<open>k\<close> zeros, for the ticks \<open>0\<close> to \<open>k - 1\<close>, followed by the signal strength of the event;
  and \<open>k\<close> is at least 1.
\<close>

theorem backfill_on_registration:
  assumes "distinct (concat locations)"
    and "run_calls (Sensor_init locations sid) calls = Inr s"
    and "ev \<in> set (event_buffer s)"
    and "map_of (ccons s) (ccon_id ev) = None"
    and "update_event_data s t = Inr s'"
  shows "1 \<le> n_events s \<and>
     (\<exists>i. map_of (ccons s') (ccon_id ev) = Some i \<and> length (rssi s) \<le> i \<and> i < length (rssi s')
        \<and> rssi s' ! i = replicate (n_events s) (Some 0) @ [Some (signal_strength ev)])"
proof -
  have i0: "rows_ok (Sensor_init locations sid)" using assms(1) by (rule Sensor_init_rows_ok)
  from run_calls_rows_ok [OF i0 assms(2)] have inv: "rows_ok s" by simp
  from update_event_data_rows(3) [OF inv assms(5)] assms(3,4) inv show ?thesis
    by (fastforce simp: rows_ok_def)
qed


theorem backfill_on_registration_witness:
  "distinct (concat [[''ConnA'', ''ConnB'']])
   \<and> run_calls (Sensor_init [[''ConnA'', ''ConnB'']] ''dev'')
        [Ingest (obs ''ConnA'' 50 0), Flush 2, Ingest (obs ''ConnC'' 40 5)]
      = Inr \<lparr>sensor_id = ''dev'', unixtime = [None, Some 2],
          rssi = [[None, Some 50], [None, Some 0]],
          ccons = [(''ConnA'', 0), (''ConnB'', 1)], ccon_ids = [],
          max_rssi = [None, Some 0], n_events = 2, last_event = 5,
          buffering = True, event_buffer = [obs ''ConnC'' 40 5], location_map = [0, 0],
          location_map_unknown = Some 1\<rparr>
   \<and> obs ''ConnC'' 40 5 \<in> set (event_buffer \<lparr>sensor_id = ''dev'', unixtime = [None, Some 2],
          rssi = [[None, Some 50], [None, Some 0]],
          ccons = [(''ConnA'', 0), (''ConnB'', 1)], ccon_ids = [],
          max_rssi = [None, Some 0], n_events = 2, last_event = 5,
          buffering = True, event_buffer = [obs ''ConnC'' 40 5], location_map = [0, 0],
          location_map_unknown = Some 1\<rparr>)
   \<and> map_of (ccons \<lparr>sensor_id = ''dev'', unixtime = [None, Some 2],
          rssi = [[None, Some 50], [None, Some 0]],
          ccons = [(''ConnA'', 0), (''ConnB'', 1)], ccon_ids = [],
          max_rssi = [None, Some 0], n_events = 2, last_event = 5,
          buffering = True, event_buffer = [obs ''ConnC'' 40 5], location_map = [0, 0],
          location_map_unknown = Some 1\<rparr>) (ccon_id (obs ''ConnC'' 40 5)) = None
   \<and> update_event_data \<lparr>sensor_id = ''dev'', unixtime = [None, Some 2],
          rssi = [[None, Some 50], [None, Some 0]],
          ccons = [(''ConnA'', 0), (''ConnB'', 1)], ccon_ids = [],
          max_rssi = [None, Some 0], n_events = 2, last_event = 5,
          buffering = True, event_buffer = [obs ''ConnC'' 40 5], location_map = [0, 0],
          location_map_unknown = Some 1\<rparr> 8 = Inr \<lparr>sensor_id = ''dev'', unixtime = [None, Some 2, Some 8],
          rssi = [[None, Some 50, Some 0], [None, Some 0, Some 0], [Some 0, Some 0, Some 40]],
          ccons = [(''ConnA'', 0), (''ConnB'', 1), (''ConnC'', 2)], ccon_ids = [''ConnC''],
          max_rssi = [None, Some 0, Some 2], n_events = 3, last_event = 5,
          buffering = False, event_buffer = [], location_map = [0, 0, 1],
          location_map_unknown = Some 1\<rparr>
   \<and> (\<exists>i. map_of [(''ConnA'', 0), (''ConnB'', 1), (''ConnC'', 2)] ''ConnC'' = Some i
          \<and> 2 \<le> i \<and> i < 3
          \<and> [[None, Some 50, Some 0], [None, Some 0, Some 0], [Some 0, Some 0, Some (40::int)]] ! i
              = replicate 2 (Some 0) @ [Some 40])"
proof -
  have h1: "distinct (concat [[''ConnA'', ''ConnB'']])"
    by (simp add: sensor_defs upt_rec)
  have h2: "run_calls (Sensor_init [[''ConnA'', ''ConnB'']] ''dev'')
        [Ingest (obs ''ConnA'' 50 0), Flush 2, Ingest (obs ''ConnC'' 40 5)]
      = Inr \<lparr>sensor_id = ''dev'', unixtime = [None, Some 2],
          rssi = [[None, Some 50], [None, Some 0]],
          ccons = [(''ConnA'', 0), (''ConnB'', 1)], ccon_ids = [],
          max_rssi = [None, Some 0], n_events = 2, last_event = 5,
          buffering = True, event_buffer = [obs ''ConnC'' 40 5], location_map = [0, 0],
          location_map_unknown = Some 1\<rparr>"
    by (simp add: sensor_defs upt_rec)
  have h3: "obs ''ConnC'' 40 5 \<in> set (event_buffer \<lparr>sensor_id = ''dev'', unixtime = [None, Some 2],
          rssi = [[None, Some 50], [None, Some 0]],
          ccons = [(''ConnA'', 0), (''ConnB'', 1)], ccon_ids = [],
          max_rssi = [None, Some 0], n_events = 2, last_event = 5,
          buffering = True, event_buffer = [obs ''ConnC'' 40 5], location_map = [0, 0],
          location_map_unknown = Some 1\<rparr>)"
    by (simp add: sensor_defs upt_rec)
  have h4: "map_of (ccons \<lparr>sensor_id = ''dev'', unixtime = [None, Some 2],
          rssi = [[None, Some 50], [None, Some 0]],
          ccons = [(''ConnA'', 0), (''ConnB'', 1)], ccon_ids = [],
          max_rssi = [None, Some 0], n_events = 2, last_event = 5,
          buffering = True, event_buffer = [obs ''ConnC'' 40 5], location_map = [0, 0],
          location_map_unknown = Some 1\<rparr>) (ccon_id (obs ''ConnC'' 40 5)) = None"
    by (simp add: sensor_defs upt_rec)
  have h5: "update_event_data \<lparr>sensor_id = ''dev'', unixtime = [None, Some 2],
          rssi = [[None, Some 50], [None, Some 0]],
          ccons = [(''ConnA'', 0), (''ConnB'', 1)], ccon_ids = [],
          max_rssi = [None, Some 0], n_events = 2, last_event = 5,
          buffering = True, event_buffer = [obs ''ConnC'' 40 5], location_map = [0, 0],
          location_map_unknown = Some 1\<rparr> 8 = Inr \<lparr>sensor_id = ''dev'', unixtime = [None, Some 2, Some 8],
          rssi = [[None, Some 50, Some 0], [None, Some 0, Some 0], [Some 0, Some 0, Some 40]],
          ccons = [(''ConnA'', 0), (''ConnB'', 1), (''ConnC'', 2)], ccon_ids = [''ConnC''],
          max_rssi = [None, Some 0, Some 2], n_events = 3, last_event = 5,
          buffering = False, event_buffer = [], location_map = [0, 0, 1],
          location_map_unknown = Some 1\<rparr>"
    by (simp add: sensor_defs upt_rec eval_nat_numeral)
  have r: "replicate 2 (Some (0::int)) = [Some 0, Some 0]" by (simp add: numeral_2_eq_2)
  from backfill_on_registration [OF h1 h2 h3 h4 h5] r have c: "\<exists>i. map_of [(''ConnA'', 0), (''ConnB'', 1), (''ConnC'', 2)] ''ConnC'' = Some i
          \<and> 2 \<le> i \<and> i < 3
          \<and> [[None, Some 50, Some 0], [None, Some 0, Some 0], [Some 0, Some 0, Some (40::int)]] ! i
              = replicate 2 (Some 0) @ [Some 40]"
    by (simp add: eval_nat_numeral)
  from h1 h2 h3 h4 h5 c show ?thesis by (intro conjI)
qed

text \<open>
  Claim C5 as stated fails when a connector is configured twice: ConnC, first observed at
  tick 1, is given the row index 1 of ConnA; that row starts with \<^verbatim>\<open>None\<close>, not with a
  zero, and the row appended for ConnC never receives its signal strength.
\<close>

theorem duplicate_connector_backfill_counterexample:
  "run_calls (Sensor_init [[''ConnA'', ''ConnA'']] ''dev'') [Ingest (obs ''ConnC'' 40 1)]
   = Inr \<lparr>sensor_id = ''dev'', unixtime = [None], rssi = [[None], [None]],
          ccons = [(''ConnA'', 1)], ccon_ids = [], max_rssi = [None],
          n_events = 1, last_event = 1, buffering = True,
          event_buffer = [obs ''ConnC'' 40 1], location_map = [0, 0],
          location_map_unknown = Some 1\<rparr>
   \<and> update_event_data
        \<lparr>sensor_id = ''dev'', unixtime = [None], rssi = [[None], [None]],
          ccons = [(''ConnA'', 1)], ccon_ids = [], max_rssi = [None],
          n_events = 1, last_event = 1, buffering = True,
          event_buffer = [obs ''ConnC'' 40 1], location_map = [0, 0],
          location_map_unknown = Some 1\<rparr> 2
      = Inr \<lparr>sensor_id = ''dev'', unixtime = [None, Some 2],
          rssi = [[None, Some 0], [None, Some 40], [Some 0, Some 0]],
          ccons = [(''ConnA'', 1), (''ConnC'', 1)], ccon_ids = [''ConnC''],
          max_rssi = [None, Some 1], n_events = 2, last_event = 1,
          buffering = False, event_buffer = [], location_map = [0, 0, 1],
          location_map_unknown = Some 1\<rparr>
   \<and> map_of [(''ConnA'', 1), (''ConnC'', 1::nat)] ''ConnC'' = Some 1
   \<and> [[None, Some 0], [None, Some 40], [Some 0, Some (0::int)]] ! 1 \<noteq> replicate 1 (Some 0) @ [Some 40]"
  by (simp add: sensor_defs upt_rec)

section \<open>The buffering flag\<close>

lemma run_call_buffering:
  assumes "buffering s \<longleftrightarrow> event_buffer s \<noteq> []" "run_call s c = Inr s1"
  shows "buffering s1 \<longleftrightarrow> event_buffer s1 \<noteq> []"
proof (cases c)
  case (Ingest ev)
  with assms buffering_new [of s ev] show ?thesis by auto
next
  case (Flush t)
  with assms have "update_event_data s t = Inr s1" by simp
  from update_event_data_fields(1,2) [OF this] show ?thesis by simp
next
  case (FlushEmpty t)
  with assms show ?thesis by (auto simp: update_empty_fields)
qed

lemma run_calls_buffering:
  assumes "buffering s \<longleftrightarrow> event_buffer s \<noteq> []" "run_calls s cs = Inr s'"
  shows "buffering s' \<longleftrightarrow> event_buffer s' \<noteq> []"
  using assms
proof (induction cs arbitrary: s)
  case Nil
  then show ?case by simp
next
  case (Cons c cs)
  from Cons.prems(2) obtain s1 where c: "run_call s c = Inr s1" and r: "run_calls s1 cs = Inr s'"
    by (auto split: sum.splits)
  from run_call_buffering [OF Cons.prems(1) c] have "buffering s1 \<longleftrightarrow> event_buffer s1 \<noteq> []" .
  from Cons.IH [OF this r] show ?case .
qed

text \<open>
  Claim C10. In the sensor after any sequence of calls of \<^verbatim>\<open>new_event_data\<close>,
  \<^verbatim>\<open>update_event_data\<close> and \<^verbatim>\<open>update_empty\<close> that all returned, \<^verbatim>\<open>buffering\<close> is true
  exactly when the buffer is not empty. Hence whenever the flag is set, as the guard of the
  director requires, the read of \<^verbatim>\<open>self.event_buffer[-1]\<close> at the start of
  \<^verbatim>\<open>update_event_data\<close> finds an event.
\<close>

theorem buffering_iff_buffer_nonempty:
  assumes "run_calls (Sensor_init locations sid) calls = Inr s"
  shows "(buffering s \<longleftrightarrow> event_buffer s \<noteq> [])
     \<and> (buffering s \<longrightarrow> (\<exists>ux. last_update_time s = Inr ux))"
proof -
  have "buffering (Sensor_init locations sid) \<longleftrightarrow> event_buffer (Sensor_init locations sid) \<noteq> []"
    using Sensor_init_buffer [of locations sid] by simp
  from run_calls_buffering [OF this assms] show ?thesis
    by (simp add: last_update_time_def)
qed

theorem buffering_iff_buffer_nonempty_witness:
  "run_calls (Sensor_init [[''ConnA'', ''ConnB'']] ''dev'') [Ingest (obs ''ConnA'' 50 0)]
      = Inr \<lparr>sensor_id = ''dev'', unixtime = [None], rssi = [[None], [None]],
          ccons = [(''ConnA'', 0), (''ConnB'', 1)], ccon_ids = [],
          max_rssi = [None], n_events = 1, last_event = 0, buffering = True,
          event_buffer = [obs ''ConnA'' 50 0], location_map = [0, 0],
          location_map_unknown = Some 1\<rparr>
   \<and> (\<exists>ux. last_update_time \<lparr>sensor_id = ''dev'', unixtime = [None], rssi = [[None], [None]],
          ccons = [(''ConnA'', 0), (''ConnB'', 1)], ccon_ids = [],
          max_rssi = [None], n_events = 1, last_event = 0, buffering = True,
          event_buffer = [obs ''ConnA'' 50 0], location_map = [0, 0],
          location_map_unknown = Some 1\<rparr> = Inr ux)"
proof -
  have h: "run_calls (Sensor_init [[''ConnA'', ''ConnB'']] ''dev'') [Ingest (obs ''ConnA'' 50 0)]
      = Inr \<lparr>sensor_id = ''dev'', unixtime = [None], rssi = [[None], [None]],
          ccons = [(''ConnA'', 0), (''ConnB'', 1)], ccon_ids = [],
          max_rssi = [None], n_events = 1, last_event = 0, buffering = True,
          event_buffer = [obs ''ConnA'' 50 0], location_map = [0, 0],
          location_map_unknown = Some 1\<rparr>"
    by (simp add: sensor_defs upt_rec)
  from buffering_iff_buffer_nonempty [OF h] have c: "(\<exists>ux. last_update_time \<lparr>sensor_id = ''dev'', unixtime = [None], rssi = [[None], [None]],
          ccons = [(''ConnA'', 0), (''ConnB'', 1)], ccon_ids = [],
          max_rssi = [None], n_events = 1, last_event = 0, buffering = True,
          event_buffer = [obs ''ConnA'' 50 0], location_map = [0, 0],
          location_map_unknown = Some 1\<rparr> = Inr ux)"
    by simp
  from h c show ?thesis by (rule conjI)
qed

section \<open>The location of an unknown connector\<close>

text \<open>
  Claim C6. \<^verbatim>\<open>location_map_unknown\<close> is assigned inside the loop over the connectors of a
  location, so a location without connectors does not advance it. With two configured
  locations of which the second has no connector, a connector that is not configured is
  registered with the location index 1: the index of the second location, not the number
  2 of configured locations.
\<close>

theorem unknown_location_after_empty_location:
  "run_calls (Sensor_init [[''ConnA''], []] ''dev'') [Ingest (obs ''ConnC'' 40 1), Flush 2]
   = Inr \<lparr>sensor_id = ''dev'', unixtime = [None, Some 2],
          rssi = [[None, Some 0], [Some 0, Some 40]],
          ccons = [(''ConnA'', 0), (''ConnC'', 1)], ccon_ids = [''ConnC''],
          max_rssi = [None, Some 1], n_events = 2, last_event = 1,
          buffering = False, event_buffer = [], location_map = [0, 1],
          location_map_unknown = Some 1\<rparr>
   \<and> length [[''ConnA''], []] = 2"
  by (simp add: sensor_defs upt_rec)

section \<open>The replay loop\<close>

lemma sorted_from:
  assumes "sorted (map update_time hist)" "i < length hist" "\<not> update_time (hist ! i) < now"
  shows "due hist now i = []"
proof -
  have "\<not> update_time e < now" if "e \<in> set (drop i hist)" for e
  proof -
    from that obtain k where k: "k < length hist - i" "e = hist ! (i + k)"
      by (auto simp: in_set_conv_nth)
    have "map update_time hist ! i \<le> map update_time hist ! (i + k)"
      using assms(1) k(1) by (intro sorted_nth_mono) simp_all
    with k assms(2,3) show ?thesis by simp
  qed
  then show ?thesis by (simp add: due_def filter_empty_conv)
qed

lemma catch_up_due:
  "sorted (map update_time hist) \<Longrightarrow>
   catch_up hist now i ss = (i + length (due hist now i), foldl Director_new_event_data ss (due hist now i))"
proof (induction hist now i ss rule: catch_up.induct)
  case (1 hist now i ss)
  show ?case
  proof (cases "i < length hist \<and> update_time (hist ! i) < now")
    case True
    then have d: "due hist now i = hist ! i # due hist now (i + 1)"
      by (simp add: due_def Cons_nth_drop_Suc [symmetric])
    from "1.IH" [OF True "1.prems"] True d show ?thesis
      by (subst catch_up.simps) simp
  next
    case False
    have "due hist now i = []"
    proof (cases "i < length hist")
      case True
      with False sorted_from [OF "1.prems" True] show ?thesis by simp
    next
      case False
      then show ?thesis by (simp add: due_def)
    qed
    with False show ?thesis by (subst catch_up.simps) auto
  qed
qed

lemma cursors_step:
  assumes "0 < step" "first \<le> final"
  shows "cursors first step final = first # cursors (first + step) step final"
proof -
  have d: "(final - first) div step = (final - (first + step)) div step + 1"
  proof -
    from assms(1) have "step \<noteq> 0" by simp
    then have "((final - (first + step)) + step) div step
        = (final - (first + step)) div step + 1" by (rule div_add_self2)
    moreover have "(final - (first + step)) + step = final - first" by simp
    ultimately show ?thesis by (simp only:)
  qed
  have nn: "0 \<le> (final - first) div step" using assms by (simp add: pos_imp_zdiv_nonneg_iff)
  with d have "nat ((final - first) div step + 1) = Suc (nat ((final - (first + step)) div step + 1))"
    by linarith
  then show ?thesis
    by (simp add: cursors_def map_upt_Suc del: upt_Suc) (simp add: algebra_simps)
qed

lemma cursors_done:
  assumes "0 < step" "\<not> first \<le> final"
  shows "cursors first step final = []"
proof -
  from assms have "(final - first) div step < 0" by (simp add: div_neg_pos_less0)
  then show ?thesis by (simp add: cursors_def)
qed

lemma deliver_Cons:
  "deliver (ob # rest) tr =
     deliver rest (if sensor_id tr = target_name ob then new_event_data tr ob else tr)"
  by (simp add: deliver_def new_event_data_fields eq_commute)

lemma dispatch_deliver:
  "foldl Director_new_event_data ss evs = map (deliver evs) ss"
proof (induction evs arbitrary: ss)
  case Nil
  then show ?case by (simp add: deliver_def map_idI)
next
  case (Cons ev evs)
  have "foldl Director_new_event_data ss (ev # evs)
      = foldl Director_new_event_data (Director_new_event_data ss ev) evs" by simp
  also have "\<dots> = map (deliver evs) (Director_new_event_data ss ev)" by (rule Cons.IH)
  also have "\<dots> = map (deliver (ev # evs)) ss"
    by (simp add: Director_new_event_data_def deliver_Cons)
  finally show ?case .
qed

lemma check_sensor_evaluate: "check_sensor prm now s = evaluate prm now s"
  by (simp add: check_sensor_def evaluate_def)

lemma check_sensors_evaluate_all: "check_sensors prm now ss = evaluate_all prm now ss"
proof (induction ss)
  case Nil
  then show ?case by (simp add: evaluate_all_def)
next
  case (Cons s ss)
  show ?case
  proof (cases "evaluate prm now s")
    case (Inl x)
    then show ?thesis
      by (cases x) (simp add: evaluate_all_def check_sensor_evaluate)
  next
    case (Inr s')
    with Cons.IH show ?thesis
      by (simp add: evaluate_all_def check_sensor_evaluate split: option.splits)
  qed
qed

lemma simulate_replay:
  assumes "0 < streamtick prm" "sorted (map update_time hist)"
  shows "simulate prm hist unix_end now i ss
     = Some (replay prm hist (cursors now (streamtick prm) unix_end) (i, ss))"
proof (induction "nat (unix_end - now + 1)" arbitrary: now i ss rule: less_induct)
  case less
  show ?case
  proof (cases "now \<le> unix_end")
    case True
    note c = cursors_step [OF assms(1) True]
    have m: "nat (unix_end - (now + streamtick prm) + 1) < nat (unix_end - now + 1)"
      using assms(1) True by linarith
    show ?thesis
      using True less [OF m]
      by (subst simulate.simps)
        (simp add: c catch_up_due [OF assms(2)] replay_step_def dispatch_deliver
          check_sensors_evaluate_all split: sum.splits)
  next
    case False
    with cursors_done [OF assms(1) False] show ?thesis
      by (subst simulate.simps) simp
  qed
qed

text \<open>
  Claim C9. With a positive step and a history sorted in time, \<^verbatim>\<open>run_history\<close> returns, and
  what it returns is the replay of the specification: the cursor takes the values from the
  first observation's timestamp in steps of \<^verbatim>\<open>streamtick\<close> up to the last observation's
  timestamp; at each value every tracker is handed, through its \<^verbatim>\<open>new_event_data\<close>, the
  observations not yet dispatched whose timestamp is strictly less than the cursor and
  whose target it is, before the rules of the tick are evaluated for any tracker; and the
  loop ends with the first cursor value beyond the last observation's timestamp.
\<close>

theorem run_history_is_replay:
  assumes "0 < streamtick prm" "sorted (map update_time event_history)" "event_history \<noteq> []"
  shows "run_history prm event_history sensors
     = Some (replay prm event_history
               (cursors (update_time (hd event_history)) (streamtick prm)
                  (update_time (last event_history)))
               (0, sensors))"
  using assms(3) simulate_replay [OF assms(1,2)]
  by (simp add: run_history_def)

theorem run_history_is_replay_witness:
  "0 < streamtick \<lparr>streamtick = 2, buffertime = 2, timeout = 30\<rparr>
   \<and> sorted (map update_time [obs ''ConnA'' 50 0, obs ''ConnB'' 40 5, obs ''ConnA'' 30 10])
   \<and> [obs ''ConnA'' 50 0, obs ''ConnB'' 40 5, obs ''ConnA'' 30 10] \<noteq> []
   \<and> run_history \<lparr>streamtick = 2, buffertime = 2, timeout = 30\<rparr>
        [obs ''ConnA'' 50 0, obs ''ConnB'' 40 5, obs ''ConnA'' 30 10]
        (spawn_devices [[''ConnA'', ''ConnB'']] [''dev''])
      = Some (replay \<lparr>streamtick = 2, buffertime = 2, timeout = 30\<rparr>
                [obs ''ConnA'' 50 0, obs ''ConnB'' 40 5, obs ''ConnA'' 30 10]
                [0, 2, 4, 6, 8, 10]
                (0, spawn_devices [[''ConnA'', ''ConnB'']] [''dev'']))
   \<and> replay \<lparr>streamtick = 2, buffertime = 2, timeout = 30\<rparr>
                [obs ''ConnA'' 50 0, obs ''ConnB'' 40 5, obs ''ConnA'' 30 10]
                [0, 2, 4, 6, 8, 10]
                (0, spawn_devices [[''ConnA'', ''ConnB'']] [''dev''])
      = Inr [\<lparr>sensor_id = ''dev'', unixtime = [None, Some 4, Some 8],
           rssi = [[None, Some 50, Some 0], [None, Some 0, Some 40]],
           ccons = [(''ConnA'', 0), (''ConnB'', 1)], ccon_ids = [],
           max_rssi = [None, Some 0, Some 1], n_events = 3, last_event = 5,
           buffering = False, event_buffer = [], location_map = [0, 0],
           location_map_unknown = Some 1\<rparr>]"
proof -
  have h1: "0 < streamtick \<lparr>streamtick = 2, buffertime = 2, timeout = 30\<rparr>" by simp
  have h2: "sorted (map update_time [obs ''ConnA'' 50 0, obs ''ConnB'' 40 5, obs ''ConnA'' 30 10])"
    by simp
  have h3: "[obs ''ConnA'' 50 0, obs ''ConnB'' 40 5, obs ''ConnA'' 30 10] \<noteq> []" by simp
  have c: "cursors 0 2 10 = [0, 2, 4, 6, 8, 10]" by code_simp
  from run_history_is_replay [OF h1 h2 h3, of "spawn_devices [[''ConnA'', ''ConnB'']] [''dev'']"] c
  have r: "run_history \<lparr>streamtick = 2, buffertime = 2, timeout = 30\<rparr>
        [obs ''ConnA'' 50 0, obs ''ConnB'' 40 5, obs ''ConnA'' 30 10]
        (spawn_devices [[''ConnA'', ''ConnB'']] [''dev''])
      = Some (replay \<lparr>streamtick = 2, buffertime = 2, timeout = 30\<rparr>
                [obs ''ConnA'' 50 0, obs ''ConnB'' 40 5, obs ''ConnA'' 30 10]
                [0, 2, 4, 6, 8, 10]
                (0, spawn_devices [[''ConnA'', ''ConnB'']] [''dev'']))"
    by simp
  have e: "replay \<lparr>streamtick = 2, buffertime = 2, timeout = 30\<rparr>
                [obs ''ConnA'' 50 0, obs ''ConnB'' 40 5, obs ''ConnA'' 30 10]
                [0, 2, 4, 6, 8, 10]
                (0, spawn_devices [[''ConnA'', ''ConnB'']] [''dev''])
      = Inr [\<lparr>sensor_id = ''dev'', unixtime = [None, Some 4, Some 8],
           rssi = [[None, Some 50, Some 0], [None, Some 0, Some 40]],
           ccons = [(''ConnA'', 0), (''ConnB'', 1)], ccon_ids = [],
           max_rssi = [None, Some 0, Some 1], n_events = 3, last_event = 5,
           buffering = False, event_buffer = [], location_map = [0, 0],
           location_map_unknown = Some 1\<rparr>]"
    by code_simp
  from h1 h2 h3 r e show ?thesis by blast
qed

section \<open>Timestamps\<close>

lemma times_ok_new_event_data: "times_ok now (new_event_data s ev) = times_ok now s"
  by (simp add: times_ok_def new_event_data_fields)

lemma times_ok_dispatch:
  "\<forall>s\<in>set ss. times_ok now s \<Longrightarrow> \<forall>s\<in>set (Director_new_event_data ss ev). times_ok now s"
  by (auto simp: Director_new_event_data_def times_ok_new_event_data)

lemma times_ok_catch_up:
  "\<forall>s\<in>set ss. times_ok now s \<Longrightarrow> \<forall>s\<in>set (snd (catch_up hist now i ss)). times_ok now s"
proof (induction hist now i ss rule: catch_up.induct)
  case (1 hist now i ss)
  show ?case
  proof (cases "i < length hist \<and> update_time (hist ! i) < now")
    case True
    from "1.IH" [OF True times_ok_dispatch [OF "1.prems"]] True show ?thesis
      by (subst catch_up.simps) simp
  next
    case False
    with "1.prems" show ?thesis by (subst catch_up.simps) auto
  qed
qed

lemma times_ok_append:
  assumes "times_ok now s" "now < now'" "unixtime s' = unixtime s @ [Some now]"
    "n_events s' = n_events s + 1"
  shows "times_ok now' s'"
proof -
  from assms(1) obtain ts where ts: "unixtime s = None # map Some ts" "sorted_wrt (<) ts"
    "\<forall>t\<in>set ts. t < now" and l: "length (unixtime s) = n_events s"
    by (auto simp: times_ok_def)
  have "unixtime s' = None # map Some (ts @ [now])" using ts(1) assms(3) by simp
  moreover have "sorted_wrt (<) (ts @ [now])" using ts(2,3) by (simp add: sorted_wrt_append)
  moreover have "\<forall>t\<in>set (ts @ [now]). t < now'" using ts(3) assms(2) by auto
  moreover have "length (unixtime s') = n_events s'" using l assms(3,4) by simp
  ultimately show ?thesis unfolding times_ok_def by blast
qed

lemma times_ok_later: "times_ok now s \<Longrightarrow> now < now' \<Longrightarrow> times_ok now' s"
  by (fastforce simp: times_ok_def)

lemma times_ok_check_sensor:
  assumes "times_ok now s" "check_sensor prm now s = Inr s'" "now < now'"
  shows "times_ok now' s'"
proof (cases "buffering s \<and> length (event_buffer s) > 0 \<and> now - last_event s > buffertime prm")
  case True
  with assms(2) have f: "update_event_data s now = Inr s'" by (simp add: check_sensor_def)
  from assms(1,3) update_event_data_fields(4,5) [OF f] show ?thesis
    by (rule times_ok_append)
next
  case False
  show ?thesis
  proof (cases "now - last_event s > timeout prm")
    case True
    with False assms(2) have "s' = update_empty s now" by (auto simp: check_sensor_def)
    then have "unixtime s' = unixtime s @ [Some now]" "n_events s' = n_events s + 1"
      by (simp_all add: update_empty_fields)
    with assms(1,3) show ?thesis by (rule times_ok_append)
  next
    case F2: False
    with False assms(2) have "s' = s" by (auto simp: check_sensor_def)
    with assms(1,3) show ?thesis by (simp add: times_ok_later)
  qed
qed

lemma times_ok_check_sensors:
  assumes "\<forall>s\<in>set ss. times_ok now s" "check_sensors prm now ss = Inr ss'" "now < now'"
  shows "\<forall>s\<in>set ss'. times_ok now' s"
  using assms
proof (induction ss arbitrary: ss')
  case Nil
  then show ?case by simp
next
  case (Cons s ss)
  from Cons.prems(2) obtain s1 ss1 where a: "check_sensor prm now s = Inr s1"
    and b: "check_sensors prm now ss = Inr ss1" and c: "ss' = s1 # ss1"
    by (auto split: sum.splits prod.splits)
  from Cons.prems(1) have "times_ok now s" by simp
  from times_ok_check_sensor [OF this a Cons.prems(3)] have "times_ok now' s1" .
  moreover from Cons.IH [OF _ b Cons.prems(3)] Cons.prems(1) have "\<forall>s\<in>set ss1. times_ok now' s"
    by simp
  ultimately show ?case using c by simp
qed

lemma times_ok_mono: "times_ok now s \<Longrightarrow> now \<le> now' \<Longrightarrow> times_ok now' s"
  by (fastforce simp: times_ok_def)

lemma times_ok_simulate:
  assumes "0 < streamtick prm"
  shows "\<forall>s\<in>set ss. times_ok (min now (unix_end + 1)) s \<Longrightarrow>
     simulate prm hist unix_end now i ss = Some (Inr ss') \<Longrightarrow>
     \<forall>s\<in>set ss'. times_ok (unix_end + 1) s"
proof (induction "nat (unix_end - now + 1)" arbitrary: now i ss rule: less_induct)
  case less
  show ?case
  proof (cases "now \<le> unix_end")
    case True
    then have mn: "min now (unix_end + 1) = now" by simp
    obtain i1 ss1 where cu: "catch_up hist now i ss = (i1, ss1)" by (cases "catch_up hist now i ss")
    from less.prems(1) mn have ok0: "\<forall>s\<in>set ss. times_ok now s" by simp
    from times_ok_catch_up [OF ok0, of hist i] cu
    have ok1: "\<forall>s\<in>set ss1. times_ok now s" by simp
    from less.prems(2) True cu obtain ss2 where cs: "check_sensors prm now ss1 = Inr ss2"
      and rest: "simulate prm hist unix_end (now + streamtick prm) i1 ss2 = Some (Inr ss')"
      by (subst (asm) simulate.simps) (auto split: sum.splits)
    have lt: "now < now + 1" by simp
    from times_ok_check_sensors [OF ok1 cs lt]
    have ok2: "\<forall>s\<in>set ss2. times_ok (now + 1) s" .
    have le: "now + 1 \<le> min (now + streamtick prm) (unix_end + 1)"
      using assms True by simp
    from ok2 le have ok3: "\<forall>s\<in>set ss2. times_ok (min (now + streamtick prm) (unix_end + 1)) s"
      by (blast intro: times_ok_mono)
    have m: "nat (unix_end - (now + streamtick prm) + 1) < nat (unix_end - now + 1)"
      using assms True by linarith
    from less.hyps [OF m ok3 rest] show ?thesis .
  next
    case False
    then have mn: "min now (unix_end + 1) = unix_end + 1" by simp
    from False less.prems(2) have "ss' = ss" by (subst (asm) simulate.simps) simp
    with less.prems(1) mn show ?thesis by simp
  qed
qed

lemma times_ok_spawn: "\<forall>s\<in>set (spawn_devices locations ids). times_ok now s"
  by (simp add: spawn_devices_def times_ok_def Sensor_init_fields)

lemma times_ok_run_history:
  assumes "0 < streamtick prm"
    and "run_history prm hist (spawn_devices locations ids) = Some (Inr ss')"
    and "\<forall>e\<in>set hist. update_time e < bound"
  shows "\<forall>s\<in>set ss'. times_ok bound s"
proof (cases "length hist < 1")
  case True
  with assms(2) have "ss' = spawn_devices locations ids" by (simp add: run_history_def)
  with times_ok_spawn show ?thesis by simp
next
  case False
  then have ne: "hist \<noteq> []" by auto
  with assms(2) have "simulate prm hist (update_time (last hist))
      (update_time (hd hist)) 0 (spawn_devices locations ids) = Some (Inr ss')"
    by (simp add: run_history_def)
  from times_ok_simulate [OF assms(1) times_ok_spawn this]
  have a: "\<forall>s\<in>set ss'. times_ok (update_time (last hist) + 1) s" .
  from ne have "last hist \<in> set hist" by simp
  with assms(3) have "update_time (last hist) < bound" by blast
  then have "update_time (last hist) + 1 \<le> bound" by simp
  with a show ?thesis by (blast intro: times_ok_mono)
qed

lemma times_ok_run_stream:
  "sorted_wrt (<) (clock_readings steps) \<Longrightarrow> \<forall>s\<in>set ss. times_ok b s \<Longrightarrow>
   \<forall>now\<in>set (clock_readings steps). b \<le> now \<Longrightarrow> run_stream prm steps ss = Inr ss' \<Longrightarrow>
   \<forall>s\<in>set ss'. \<exists>b'. times_ok b' s"
proof (induction prm steps ss arbitrary: b rule: run_stream.induct)
  case (1 prm sensors)
  then show ?case by auto
next
  case (2 prm event_data steps sensors)
  from times_ok_dispatch [OF "2.prems"(2)]
  have "\<forall>s\<in>set (Director_new_event_data sensors event_data). times_ok b s" .
  from "2.IH" [OF _ this] "2.prems" show ?case by simp
next
  case (3 prm now steps sensors)
  from "3.prems"(4) obtain sensors1 where cs: "check_sensors prm now sensors = Inr sensors1"
    and rest: "run_stream prm steps sensors1 = Inr ss'" by (auto split: sum.splits)
  from "3.prems"(2,3) have ok0: "\<forall>s\<in>set sensors. times_ok now s"
    by (auto intro: times_ok_mono)
  have lt: "now < now + 1" by simp
  from times_ok_check_sensors [OF ok0 cs lt]
  have ok1: "\<forall>s\<in>set sensors1. times_ok (now + 1) s" .
  from "3.prems"(1) have srt: "sorted_wrt (<) (clock_readings steps)"
    and later: "\<forall>n\<in>set (clock_readings steps). now + 1 \<le> n" by auto
  from "3.IH" [OF cs srt ok1 later rest] show ?case .
qed

lemma times_ok_indices:
  assumes "times_ok b s"
  shows "length (unixtime s) = n_events s \<and> unixtime s ! 0 = None
     \<and> (\<forall>i j. 1 \<le> i \<and> i < j \<and> j < n_events s \<longrightarrow>
           (\<exists>t u. unixtime s ! i = Some t \<and> unixtime s ! j = Some u \<and> t < u))"
proof -
  from assms obtain ts where l: "length (unixtime s) = n_events s"
    and u: "unixtime s = None # map Some ts" and srt: "sorted_wrt (<) ts"
    by (auto simp: times_ok_def)
  from l u have n: "n_events s = Suc (length ts)" by simp
  have step: "\<exists>t u'. unixtime s ! i = Some t \<and> unixtime s ! j = Some u' \<and> t < u'"
    if "1 \<le> i" "i < j" "j < n_events s" for i j
  proof -
    from that n have b: "i - 1 < j - 1" "j - 1 < length ts" by auto
    from sorted_wrt_nth_less [OF srt b] have "ts ! (i - 1) < ts ! (j - 1)" .
    moreover from that b u have "unixtime s ! i = Some (ts ! (i - 1))"
      "unixtime s ! j = Some (ts ! (j - 1))" by (auto simp: nth_Cons split: nat.splits)
    ultimately show ?thesis by simp
  qed
  have z: "unixtime s ! 0 = None" using u by simp
  from step have "\<forall>i j. 1 \<le> i \<and> i < j \<and> j < n_events s \<longrightarrow>
           (\<exists>t u. unixtime s ! i = Some t \<and> unixtime s ! j = Some u \<and> t < u)" by blast
  with l z show ?thesis by blast
qed

text \<open>
  Claim C8, as amended. Let the sensors be constructed, replayed by \<^verbatim>\<open>run_history\<close> with a
  positive step (or left by its loop for any bound, start value and position, hence after
  any round of the replay), and then driven by any number of steps of the live stream whose
  clock readings increase strictly and are later than the replayed timestamps. Then for
  every sensor \<^verbatim>\<open>unixtime\<close> has \<^verbatim>\<open>n_events\<close> entries, the entry at index 0 is the \<^verbatim>\<open>None\<close> of
  the construction, and the entries after it are timestamps that increase strictly: for
  all indices \<open>1 \<le> i < j < n_events\<close> the entry at \<open>i\<close> is less than the entry at \<open>j\<close>.
\<close>

theorem timestamps_increasing_after_sentinel:
  assumes "0 < streamtick prm"
    and "run_history prm event_history (spawn_devices locations ids) = Some (Inr sensors1)
       \<or> simulate prm event_history unix_end unix_now i (spawn_devices locations ids)
           = Some (Inr sensors1)"
    and "run_stream prm steps sensors1 = Inr sensors2"
    and "sorted_wrt (<) (clock_readings steps)"
    and "\<forall>now\<in>set (clock_readings steps). \<forall>e\<in>set event_history. update_time e < now"
    and "\<forall>now\<in>set (clock_readings steps). unix_end < now"
    and "s \<in> set sensors2"
  shows "length (unixtime s) = n_events s \<and> unixtime s ! 0 = None
     \<and> (\<forall>i j. 1 \<le> i \<and> i < j \<and> j < n_events s \<longrightarrow>
           (\<exists>t u. unixtime s ! i = Some t \<and> unixtime s ! j = Some u \<and> t < u))"
proof -
  have "\<exists>b. (\<forall>s\<in>set sensors1. times_ok b s) \<and> (\<forall>now\<in>set (clock_readings steps). b \<le> now)"
  proof (cases "run_history prm event_history (spawn_devices locations ids) = Some (Inr sensors1)")
    case True
    have "\<exists>b. (\<forall>e\<in>set event_history. update_time e < b)
        \<and> (\<forall>now\<in>set (clock_readings steps). b \<le> now)"
    proof (cases "clock_readings steps")
      case Nil
      have "\<forall>e\<in>set event_history. update_time e < Max (update_time ` set event_history) + 1"
      proof
        fix e assume "e \<in> set event_history"
        then have "update_time e \<le> Max (update_time ` set event_history)" by simp
        then show "update_time e < Max (update_time ` set event_history) + 1" by simp
      qed
      moreover from Nil have "\<forall>now\<in>set (clock_readings steps).
          Max (update_time ` set event_history) + 1 \<le> now" by simp
      ultimately show ?thesis by blast
    next
      case (Cons n ns)
      with assms(4) have "\<forall>now\<in>set (clock_readings steps). n \<le> now" by auto
      moreover from Cons assms(5) have "\<forall>e\<in>set event_history. update_time e < n" by simp
      ultimately show ?thesis by blast
    qed
    then obtain b where b1: "\<forall>e\<in>set event_history. update_time e < b"
      and b2: "\<forall>now\<in>set (clock_readings steps). b \<le> now" by blast
    from times_ok_run_history [OF assms(1) True b1] b2 show ?thesis by blast
  next
    case False
    with assms(2) have "simulate prm event_history unix_end unix_now i
        (spawn_devices locations ids) = Some (Inr sensors1)" by simp
    from times_ok_simulate [OF assms(1) times_ok_spawn this]
    have "\<forall>s\<in>set sensors1. times_ok (unix_end + 1) s" .
    moreover from assms(6) have "\<forall>now\<in>set (clock_readings steps). unix_end + 1 \<le> now"
      by auto
    ultimately show ?thesis by blast
  qed
  then obtain b where b1: "\<forall>s\<in>set sensors1. times_ok b s"
    and b2: "\<forall>now\<in>set (clock_readings steps). b \<le> now" by blast
  from times_ok_run_stream [OF assms(4) b1 b2 assms(3)] assms(7)
  obtain b' where "times_ok b' s" by blast
  then show ?thesis by (rule times_ok_indices)
qed

theorem timestamps_increasing_after_sentinel_witness:
  "0 < streamtick \<lparr>streamtick = 2, buffertime = 2, timeout = 30\<rparr>
   \<and> run_history \<lparr>streamtick = 2, buffertime = 2, timeout = 30\<rparr>
        [obs ''ConnA'' 50 0, obs ''ConnB'' 40 5, obs ''ConnA'' 30 10]
        (spawn_devices [[''ConnA'', ''ConnB'']] [''dev''])
      = Some (Inr [\<lparr>sensor_id = ''dev'', unixtime = [None, Some 4, Some 8],
           rssi = [[None, Some 50, Some 0], [None, Some 0, Some 40]],
           ccons = [(''ConnA'', 0), (''ConnB'', 1)], ccon_ids = [],
           max_rssi = [None, Some 0, Some 1], n_events = 3, last_event = 5,
           buffering = False, event_buffer = [], location_map = [0, 0],
           location_map_unknown = Some 1\<rparr>])
   \<and> run_stream \<lparr>streamtick = 2, buffertime = 2, timeout = 30\<rparr>
        [Arrival (obs ''ConnC'' 20 100), Round 101, Round 104, Round 140]
        [\<lparr>sensor_id = ''dev'', unixtime = [None, Some 4, Some 8],
           rssi = [[None, Some 50, Some 0], [None, Some 0, Some 40]],
           ccons = [(''ConnA'', 0), (''ConnB'', 1)], ccon_ids = [],
           max_rssi = [None, Some 0, Some 1], n_events = 3, last_event = 5,
           buffering = False, event_buffer = [], location_map = [0, 0],
           location_map_unknown = Some 1\<rparr>]
      = Inr [\<lparr>sensor_id = ''dev'',
           unixtime = [None, Some 4, Some 8, Some 104, Some 140],
           rssi = [[None, Some 50, Some 0, Some 0, Some 0],
                   [None, Some 0, Some 40, Some 0, Some 0],
                   [Some 0, Some 0, Some 0, Some 20, Some 0]],
           ccons = [(''ConnA'', 0), (''ConnB'', 1), (''ConnC'', 2)],
           ccon_ids = [''ConnC''],
           max_rssi = [None, Some 0, Some 1, Some 2, None], n_events = 5,
           last_event = 100, buffering = False, event_buffer = [],
           location_map = [0, 0, 1], location_map_unknown = Some 1\<rparr>]
   \<and> clock_readings [Arrival (obs ''ConnC'' 20 100), Round 101, Round 104, Round 140]
      = [101, 104, 140]
   \<and> map update_time [obs ''ConnA'' 50 0, obs ''ConnB'' 40 5, obs ''ConnA'' 30 10] = [0, 5, 10]
   \<and> sorted_wrt (<) (clock_readings [Arrival (obs ''ConnC'' 20 100), Round 101, Round 104, Round 140])
   \<and> length [None, Some 4, Some 8, Some 104, Some (140::int)] = 5
   \<and> [None, Some 4, Some 8, Some 104, Some (140::int)] ! 0 = None
   \<and> (\<exists>t u. [None, Some 4, Some 8, Some 104, Some (140::int)] ! 2 = Some t
          \<and> [None, Some 4, Some 8, Some 104, Some (140::int)] ! 3 = Some u \<and> t < u)"
proof -
  have h1: "0 < streamtick \<lparr>streamtick = 2, buffertime = 2, timeout = 30\<rparr>" by simp
  have h2: "run_history \<lparr>streamtick = 2, buffertime = 2, timeout = 30\<rparr>
        [obs ''ConnA'' 50 0, obs ''ConnB'' 40 5, obs ''ConnA'' 30 10]
        (spawn_devices [[''ConnA'', ''ConnB'']] [''dev''])
      = Some (Inr [\<lparr>sensor_id = ''dev'', unixtime = [None, Some 4, Some 8],
           rssi = [[None, Some 50, Some 0], [None, Some 0, Some 40]],
           ccons = [(''ConnA'', 0), (''ConnB'', 1)], ccon_ids = [],
           max_rssi = [None, Some 0, Some 1], n_events = 3, last_event = 5,
           buffering = False, event_buffer = [], location_map = [0, 0],
           location_map_unknown = Some 1\<rparr>])"
    by code_simp
  have h3: "run_stream \<lparr>streamtick = 2, buffertime = 2, timeout = 30\<rparr>
        [Arrival (obs ''ConnC'' 20 100), Round 101, Round 104, Round 140]
        [\<lparr>sensor_id = ''dev'', unixtime = [None, Some 4, Some 8],
           rssi = [[None, Some 50, Some 0], [None, Some 0, Some 40]],
           ccons = [(''ConnA'', 0), (''ConnB'', 1)], ccon_ids = [],
           max_rssi = [None, Some 0, Some 1], n_events = 3, last_event = 5,
           buffering = False, event_buffer = [], location_map = [0, 0],
           location_map_unknown = Some 1\<rparr>]
      = Inr [\<lparr>sensor_id = ''dev'',
           unixtime = [None, Some 4, Some 8, Some 104, Some 140],
           rssi = [[None, Some 50, Some 0, Some 0, Some 0],
                   [None, Some 0, Some 40, Some 0, Some 0],
                   [Some 0, Some 0, Some 0, Some 20, Some 0]],
           ccons = [(''ConnA'', 0), (''ConnB'', 1), (''ConnC'', 2)],
           ccon_ids = [''ConnC''],
           max_rssi = [None, Some 0, Some 1, Some 2, None], n_events = 5,
           last_event = 100, buffering = False, event_buffer = [],
           location_map = [0, 0, 1], location_map_unknown = Some 1\<rparr>]"
    by code_simp
  have h4: "sorted_wrt (<) (clock_readings [Arrival (obs ''ConnC'' 20 100), Round 101, Round 104, Round 140])"
    by simp
  have h5: "\<forall>now\<in>set (clock_readings [Arrival (obs ''ConnC'' 20 100), Round 101, Round 104, Round 140]).
      \<forall>e\<in>set [obs ''ConnA'' 50 0, obs ''ConnB'' 40 5, obs ''ConnA'' 30 10]. update_time e < now"
    by simp
  have h5': "\<forall>now\<in>set (clock_readings [Arrival (obs ''ConnC'' 20 100), Round 101, Round 104, Round 140]).
      (10::int) < now"
    by simp
  have h6: "\<lparr>sensor_id = ''dev'',
           unixtime = [None, Some 4, Some 8, Some 104, Some 140],
           rssi = [[None, Some 50, Some 0, Some 0, Some 0],
                   [None, Some 0, Some 40, Some 0, Some 0],
                   [Some 0, Some 0, Some 0, Some 20, Some 0]],
           ccons = [(''ConnA'', 0), (''ConnB'', 1), (''ConnC'', 2)],
           ccon_ids = [''ConnC''],
           max_rssi = [None, Some 0, Some 1, Some 2, None], n_events = 5,
           last_event = 100, buffering = False, event_buffer = [],
           location_map = [0, 0, 1], location_map_unknown = Some 1\<rparr>
      \<in> set [\<lparr>sensor_id = ''dev'',
           unixtime = [None, Some 4, Some 8, Some 104, Some 140],
           rssi = [[None, Some 50, Some 0, Some 0, Some 0],
                   [None, Some 0, Some 40, Some 0, Some 0],
                   [Some 0, Some 0, Some 0, Some 20, Some 0]],
           ccons = [(''ConnA'', 0), (''ConnB'', 1), (''ConnC'', 2)],
           ccon_ids = [''ConnC''],
           max_rssi = [None, Some 0, Some 1, Some 2, None], n_events = 5,
           last_event = 100, buffering = False, event_buffer = [],
           location_map = [0, 0, 1], location_map_unknown = Some 1\<rparr>]"
    by simp
  note T = timestamps_increasing_after_sentinel [OF h1 disjI1 [OF h2] h3 h4 h5 h5' h6]
  from T have a: "length [None, Some 4, Some 8, Some 104, Some (140::int)] = 5
      \<and> [None, Some 4, Some 8, Some 104, Some (140::int)] ! 0 = None" by simp
  from T have "1 \<le> (2::nat) \<and> (2::nat) < 3 \<and> (3::nat) < 5 \<longrightarrow>
      (\<exists>t u. [None, Some 4, Some 8, Some 104, Some (140::int)] ! 2 = Some t
          \<and> [None, Some 4, Some 8, Some 104, Some (140::int)] ! 3 = Some u \<and> t < u)"
    by simp
  then have b: "\<exists>t u. [None, Some 4, Some 8, Some 104, Some (140::int)] ! 2 = Some t
          \<and> [None, Some 4, Some 8, Some 104, Some (140::int)] ! 3 = Some u \<and> t < u"
    by simp
  have r: "clock_readings [Arrival (obs ''ConnC'' 20 100), Round 101, Round 104, Round 140]
      = [101, 104, 140]" by simp
  have t: "map update_time [obs ''ConnA'' 50 0, obs ''ConnB'' 40 5, obs ''ConnA'' 30 10]
      = [0, 5, 10]" by simp
  from h1 h2 h3 r t h4 a b show ?thesis by blast
qed

text \<open>
  Claim C8 as stated fails at the index 0: in the state in which the replay returns, the
  first entry of \<^verbatim>\<open>unixtime\<close> is the \<^verbatim>\<open>None\<close> written at construction, which is not a
  timestamp and is not less than the entry at index 1.
\<close>

theorem sentinel_is_not_a_timestamp_counterexample:
  "run_history \<lparr>streamtick = 2, buffertime = 2, timeout = 30\<rparr>
        [obs ''ConnA'' 50 0, obs ''ConnB'' 40 5, obs ''ConnA'' 30 10]
        (spawn_devices [[''ConnA'', ''ConnB'']] [''dev''])
      = Some (Inr [\<lparr>sensor_id = ''dev'', unixtime = [None, Some 4, Some 8],
           rssi = [[None, Some 50, Some 0], [None, Some 0, Some 40]],
           ccons = [(''ConnA'', 0), (''ConnB'', 1)], ccon_ids = [],
           max_rssi = [None, Some 0, Some 1], n_events = 3, last_event = 5,
           buffering = False, event_buffer = [], location_map = [0, 0],
           location_map_unknown = Some 1\<rparr>])
   \<and> [None, Some 4, Some (8::int)] ! 0 = None"
  by code_simp

end
